theory Spec2Isabelle
  imports Complex_Main
begin

section \<open>Numbers and arrays of the source language\<close>

text \<open>
  JavaScript numbers are modelled as mathematical reals (coordinates, angles, distances)
  and as integers (grid coordinates and piece indices, which the source only ever builds
  from integer loop counters): the statements about the geometry are about what the
  code's formulas denote in exact arithmetic. Where a claim compares computed numbers bit
  for bit (the sampled points of the edge generators), the rounding of IEEE doubles is
  modelled as well, in additional definitions of the same functions whose names end in
  \<open>_f64\<close>, and the distance between the two models is bounded. The one non-finite value
  the snap engine produces, \<open>Infinity\<close>, is a constructor of its own.
\<close>

datatype jsnum = Finite real | Infinity

text \<open>\<open>a % b\<close>: the remainder has the sign of the dividend (the quotient is truncated).\<close>

definition js_rem :: "real \<Rightarrow> real \<Rightarrow> real" where
  "js_rem a b = a - b * of_int (if 0 \<le> a / b then \<lfloor>a / b\<rfloor> else \<lceil>a / b\<rceil>)"

text \<open>\<open>arr[k]\<close>: \<open>undefined\<close> (here \<open>None\<close>) outside the array.\<close>

definition js_at :: "'a list \<Rightarrow> int \<Rightarrow> 'a option" where
  "js_at xs k = (if 0 \<le> k \<and> nat k < length xs then Some (xs ! nat k) else None)"

text \<open>\<open>pts.slice(1)\<close> and \<open>pts.slice(1, -1)\<close>.\<close>

definition slice1 :: "'a list \<Rightarrow> 'a list" where
  "slice1 pts = drop 1 pts"

definition slice1m1 :: "'a list \<Rightarrow> 'a list" where
  "slice1m1 pts = butlast (drop 1 pts)"

section \<open>Boundary curve generator (puzzleGeometry.js)\<close>

text \<open>A \<open>THREE.Vector2\<close> is the pair of its \<open>x\<close> and \<open>y\<close>.\<close>

type_synonym vec2 = "real \<times> real"

definition splitOffset :: "real \<Rightarrow> string \<Rightarrow> real \<Rightarrow> real" where
  "splitOffset t mode amplitude =
     (if mode = ''wave'' then sin (t * pi * 4) * amplitude
      else if mode = ''zigzag'' then
        (let zt = js_rem (t * 8) 1
         in (if zt < 0.5 then zt * 2 else (1 - zt) * 2) * amplitude - amplitude * 0.5)
      else 0)"

text \<open>The loop \<open>for (i = 0; i <= segments; i++)\<close> pushes one point per \<open>i\<close>.\<close>

definition generateHorizontalEdge ::
  "real \<Rightarrow> real \<Rightarrow> real \<Rightarrow> string \<Rightarrow> real \<Rightarrow> nat \<Rightarrow> vec2 list" where
  "generateHorizontalEdge xStart xEnd Y splitMode amplitude segments =
     map (\<lambda>i. let t = real i / real segments;
                   x = xStart + (xEnd - xStart) * t;
                   y = Y + splitOffset t splitMode amplitude
               in (x, y)) [0..<segments + 1]"

definition generateVerticalEdge ::
  "real \<Rightarrow> real \<Rightarrow> real \<Rightarrow> string \<Rightarrow> real \<Rightarrow> nat \<Rightarrow> vec2 list" where
  "generateVerticalEdge X yStart yEnd splitMode amplitude segments =
     map (\<lambda>i. let t = real i / real segments;
                   y = yStart + (yEnd - yStart) * t;
                   x = X + splitOffset t splitMode amplitude
               in (x, y)) [0..<segments + 1]"

section \<open>Piece partitioner\<close>

record PuzzleParams =
  width :: real
  height :: real
  depth :: real
  gridX :: int
  gridY :: int
  splitMode :: string

text \<open>
  The locals of \<open>createPieceShape\<close>. Division by \<open>gridX\<close> or \<open>gridY\<close> is only meaningful
  for a grid of at least one column and one row, which every statement below assumes.
\<close>

definition pieceW :: "PuzzleParams \<Rightarrow> real" where
  "pieceW params = width params / of_int (gridX params)"

definition pieceH :: "PuzzleParams \<Rightarrow> real" where
  "pieceH params = height params / of_int (gridY params)"

definition amplitudeOf :: "PuzzleParams \<Rightarrow> real" where
  "amplitudeOf params = min (pieceW params) (pieceH params) * 0.08"

definition xLeft :: "int \<Rightarrow> PuzzleParams \<Rightarrow> real" where
  "xLeft c params = - (width params / 2) + of_int c * pieceW params"

definition xRight :: "int \<Rightarrow> PuzzleParams \<Rightarrow> real" where
  "xRight c params = xLeft c params + pieceW params"

definition yBottom :: "int \<Rightarrow> PuzzleParams \<Rightarrow> real" where
  "yBottom r params = - (height params / 2) + of_int r * pieceH params"

definition yTop :: "int \<Rightarrow> PuzzleParams \<Rightarrow> real" where
  "yTop r params = yBottom r params + pieceH params"

definition pieceCenterX :: "int \<Rightarrow> PuzzleParams \<Rightarrow> real" where
  "pieceCenterX c params = (xLeft c params + xRight c params) / 2"

definition pieceCenterY :: "int \<Rightarrow> PuzzleParams \<Rightarrow> real" where
  "pieceCenterY r params = (yBottom r params + yTop r params) / 2"

text \<open>
  The four \<open>pts\<close> sequences of \<open>createPieceShape\<close>, each the call the source makes on an
  interior side (default 30 segments, so 31 points), before any \<open>slice\<close>.
\<close>

definition bottomPts :: "int \<Rightarrow> int \<Rightarrow> PuzzleParams \<Rightarrow> vec2 list" where
  "bottomPts c r params =
     generateHorizontalEdge (xLeft c params) (xRight c params) (yBottom r params)
       (splitMode params) (amplitudeOf params) 30"

definition rightPts :: "int \<Rightarrow> int \<Rightarrow> PuzzleParams \<Rightarrow> vec2 list" where
  "rightPts c r params =
     generateVerticalEdge (xRight c params) (yBottom r params) (yTop r params)
       (splitMode params) (amplitudeOf params) 30"

definition topPts :: "int \<Rightarrow> int \<Rightarrow> PuzzleParams \<Rightarrow> vec2 list" where
  "topPts c r params =
     generateHorizontalEdge (xRight c params) (xLeft c params) (yTop r params)
       (splitMode params) (amplitudeOf params) 30"

definition leftPts :: "int \<Rightarrow> int \<Rightarrow> PuzzleParams \<Rightarrow> vec2 list" where
  "leftPts c r params =
     generateVerticalEdge (xLeft c params) (yTop r params) (yBottom r params)
       (splitMode params) (amplitudeOf params) 30"

text \<open>The global-coordinate ring \<open>outline\<close>, side by side in the order of the pushes.\<close>

definition outlineOf :: "int \<Rightarrow> int \<Rightarrow> PuzzleParams \<Rightarrow> vec2 list" where
  "outlineOf c r params =
     (if r = 0 then [(xLeft c params, yBottom r params), (xRight c params, yBottom r params)]
      else bottomPts c r params)
     @ (if c = gridX params - 1 then [(xRight c params, yTop r params)]
        else slice1 (rightPts c r params))
     @ (if r = gridY params - 1 then [(xLeft c params, yTop r params)]
        else slice1 (topPts c r params))
     @ (if c = 0 then [] else slice1m1 (leftPts c r params))"

text \<open>
  \<open>createPieceShape\<close> returns \<open>{ shape, centerX, centerY }\<close>; the \<open>THREE.Shape\<close> is the
  closed path through \<open>localPts\<close>, represented by that ring.
\<close>

record PieceShape =
  shape :: "vec2 list"
  shapeCenterX :: real
  shapeCenterY :: real

definition createPieceShape :: "int \<Rightarrow> int \<Rightarrow> PuzzleParams \<Rightarrow> PieceShape" where
  "createPieceShape c r params =
     (let centerX = pieceCenterX c params;
          centerY = pieceCenterY r params;
          localPts = map (\<lambda>p. (fst p - centerX, snd p - centerY)) (outlineOf c r params)
      in \<lparr>shape = localPts, shapeCenterX = centerX, shapeCenterY = centerY\<rparr>)"


section \<open>Adjacency index\<close>

text \<open>The object \<open>neighbors\<close>; its keys are inserted in the order left, right, bottom, top.\<close>

record Neighbors =
  leftN :: int
  rightN :: int
  bottomN :: int
  topN :: int

text \<open>
  One element of the array \<open>generateAllPieces\<close> returns. The \<open>THREE.ExtrudeGeometry\<close> is
  built by the rendering library from the piece's shape; the ring it extrudes stands for it.
\<close>

record PieceInfo =
  geometry :: "vec2 list"
  centerX :: real
  centerY :: real
  col :: int
  row :: int
  index :: int
  neighbors :: Neighbors

definition createPieceGeometry :: "int \<Rightarrow> int \<Rightarrow> PuzzleParams \<Rightarrow> PieceShape" where
  "createPieceGeometry c r params = createPieceShape c r params"

text \<open>The body of the inner loop: the object pushed for \<open>(col, row)\<close> at counter \<open>index\<close>.\<close>

definition pieceAt :: "int \<Rightarrow> int \<Rightarrow> int \<Rightarrow> PuzzleParams \<Rightarrow> PieceInfo" where
  "pieceAt c r idx params =
     (let g = createPieceGeometry c r params;
          nb = \<lparr>leftN = (if c > 0 then r * gridX params + (c - 1) else -1),
                rightN = (if c < gridX params - 1 then r * gridX params + (c + 1) else -1),
                bottomN = (if r > 0 then (r - 1) * gridX params + c else -1),
                topN = (if r < gridY params - 1 then (r + 1) * gridX params + c else -1)\<rparr>
      in \<lparr>geometry = shape g, centerX = shapeCenterX g, centerY = shapeCenterY g,
          col = c, row = r, index = idx, neighbors = nb\<rparr>)"

text \<open>
  The two nested \<open>for\<close> loops, threading the array \<open>pieces\<close> and the counter \<open>index\<close>.
\<close>

definition colLoop :: "int \<Rightarrow> PuzzleParams \<Rightarrow> PieceInfo list \<times> int \<Rightarrow> PieceInfo list \<times> int" where
  "colLoop r params st =
     fold (\<lambda>c (pieces, idx). (pieces @ [pieceAt c r idx params], idx + 1))
       [0..gridX params - 1] st"

definition generateAllPieces :: "PuzzleParams \<Rightarrow> PieceInfo list" where
  "generateAllPieces params =
     fst (fold (\<lambda>r st. colLoop r params st) [0..gridY params - 1] ([], 0))"

section \<open>Snap-match engine\<close>

text \<open>
  A pose object of the store. The store keeps \<open>{ x, y, z, rotation }\<close>; the snap engine
  also reads a property \<open>index\<close>, which is \<open>undefined\<close> (\<open>None\<close>) on an object that
  has no such property. The fields carry a prefix, \<open>x\<close> and \<open>y\<close> being variables here.
\<close>

record PieceTransform =
  tx :: real
  ty :: real
  tz :: real
  trotation :: real
  tindex :: "int option"

text \<open>\<open>piecesInfo[piece.index]\<close>: indexing an array by \<open>undefined\<close> gives \<open>undefined\<close>.\<close>

definition infoOf :: "PieceInfo list \<Rightarrow> int option \<Rightarrow> PieceInfo option" where
  "infoOf piecesInfo idx = (case idx of None \<Rightarrow> None | Some k \<Rightarrow> js_at piecesInfo k)"

text \<open>
  The object \<open>checkSnapPossibility\<close> returns; the three target properties exist only
  on the accepting branch.
\<close>

record SnapResult =
  canSnap :: bool
  distance :: jsnum
  edge :: string
  targetX :: "real option"
  targetY :: "real option"
  targetRotation :: "real option"

text \<open>The \<open>if / else if\<close> chain that names the shared edge (strict equality with \<open>piece2.index\<close>).\<close>

definition edgeTowards :: "Neighbors \<Rightarrow> int option \<Rightarrow> string option" where
  "edgeTowards nb idx2 =
     (if Some (leftN nb) = idx2 then Some ''left''
      else if Some (rightN nb) = idx2 then Some ''right''
      else if Some (bottomN nb) = idx2 then Some ''bottom''
      else if Some (topN nb) = idx2 then Some ''top''
      else None)"

text \<open>\<open>r || 0\<close> on a number.\<close>

definition orZero :: "real \<Rightarrow> real" where
  "orZero r = (if r = 0 then 0 else r)"

definition checkSnapPossibility ::
  "PieceTransform \<Rightarrow> PieceTransform \<Rightarrow> PieceInfo list \<Rightarrow> real \<Rightarrow> SnapResult option" where
  "checkSnapPossibility piece1 piece2 piecesInfo threshold =
     (case (infoOf piecesInfo (tindex piece1), infoOf piecesInfo (tindex piece2)) of
        (Some info1, Some info2) \<Rightarrow>
          (case edgeTowards (neighbors info1) (tindex piece2) of
             None \<Rightarrow> None
           | Some e \<Rightarrow>
              (let originalDx = centerX info1 - centerX info2;
                   originalDy = centerY info1 - centerY info2;
                   rotationDiff = js_rem \<bar>trotation piece1 - trotation piece2\<bar> (2 * pi);
                   rotationMatch = (rotationDiff < 0.1 \<or> \<bar>rotationDiff - 2 * pi\<bar> < 0.1)
               in if \<not> rotationMatch then
                    Some \<lparr>canSnap = False, distance = Infinity, edge = e,
                          targetX = None, targetY = None, targetRotation = None\<rparr>
                  else
                    (let currentDx = tx piece1 - tx piece2;
                         currentDy = ty piece1 - ty piece2;
                         angle = orZero (trotation piece2);
                         rotatedDx = originalDx * cos angle - originalDy * sin angle;
                         rotatedDy = originalDx * sin angle + originalDy * cos angle;
                         diffX = currentDx - rotatedDx;
                         diffY = currentDy - rotatedDy;
                         d = sqrt (diffX * diffX + diffY * diffY)
                     in if d \<le> threshold then
                          Some \<lparr>canSnap = True, distance = Finite d, edge = e,
                                targetX = Some (tx piece2 + rotatedDx),
                                targetY = Some (ty piece2 + rotatedDy),
                                targetRotation = Some (trotation piece2)\<rparr>
                        else
                          Some \<lparr>canSnap = False, distance = Finite d, edge = e,
                                targetX = None, targetY = None, targetRotation = None\<rparr>)))
      | _ \<Rightarrow> None)"

text \<open>
  An element of the array \<open>findSnapTargets\<close> returns: \<open>{ neighborIndex, edge, ...result }\<close>,
  where the spread of \<open>result\<close> overwrites \<open>edge\<close> with the result's own.
\<close>

record SnapTarget =
  neighborIndex :: int
  tCanSnap :: bool
  tDistance :: jsnum
  tEdge :: string
  tTargetX :: "real option"
  tTargetY :: "real option"
  tTargetRotation :: "real option"

definition finiteDistance :: "jsnum \<Rightarrow> bool" where
  "finiteDistance d = (case d of Finite _ \<Rightarrow> True | Infinity \<Rightarrow> False)"

text \<open>The sort key; only finite distances ever reach the sort.\<close>

definition distanceValue :: "jsnum \<Rightarrow> real" where
  "distanceValue d = (case d of Finite v \<Rightarrow> v | Infinity \<Rightarrow> 0)"

text \<open>The callback of \<open>forEach\<close> over the entries of \<open>neighbors\<close>: at most one push.\<close>

definition snapTargetFor ::
  "PieceTransform \<Rightarrow> PieceTransform list \<Rightarrow> PieceInfo list \<Rightarrow> real \<Rightarrow> string \<times> int
     \<Rightarrow> SnapTarget option" where
  "snapTargetFor piece transforms piecesInfo threshold entry =
     (let nIdx = snd entry
      in if nIdx = -1 then None
         else (case js_at transforms nIdx of
                 None \<Rightarrow> None
               | Some neighborTransform \<Rightarrow>
                  (case checkSnapPossibility piece neighborTransform piecesInfo threshold of
                     None \<Rightarrow> None
                   | Some result \<Rightarrow>
                      if finiteDistance (distance result) then
                        Some \<lparr>neighborIndex = nIdx, tCanSnap = canSnap result,
                              tDistance = distance result, tEdge = edge result,
                              tTargetX = targetX result, tTargetY = targetY result,
                              tTargetRotation = targetRotation result\<rparr>
                      else None)))"

definition neighborEntries :: "Neighbors \<Rightarrow> (string \<times> int) list" where
  "neighborEntries nb =
     [(''left'', leftN nb), (''right'', rightN nb), (''bottom'', bottomN nb), (''top'', topN nb)]"

definition findSnapTargets ::
  "int \<Rightarrow> PieceTransform list \<Rightarrow> PieceInfo list \<Rightarrow> real \<Rightarrow> SnapTarget list" where
  "findSnapTargets pieceIndex transforms piecesInfo threshold =
     (case (js_at transforms pieceIndex, js_at piecesInfo pieceIndex) of
        (Some piece, Some pieceInfo) \<Rightarrow>
          sort_key (\<lambda>t. distanceValue (tDistance t))
            (List.map_filter (snapTargetFor piece transforms piecesInfo threshold)
               (neighborEntries (neighbors pieceInfo)))
      | _ \<Rightarrow> [])"

definition calculateEdgeHighlightIntensity :: "real \<Rightarrow> real \<Rightarrow> real" where
  "calculateEdgeHighlightIntensity d threshold =
     (if d \<ge> threshold then 0
      else (let ratio = 1 - d / threshold in ratio * ratio))"


section \<open>Pose store (the game part of the Redux slice)\<close>

text \<open>\<open>isDraggingRef.current\<close> is \<open>false\<close>, \<open>'drag'\<close> or \<open>'rotate'\<close>.\<close>

datatype dragging = NotDragging | Drag | Rotate

text \<open>
  The slice's game state together with the mutable refs of the viewer component that the
  handlers below read and write.
\<close>

record AppState =
  puzzleGameMode :: bool
  puzzleScattered :: bool
  difficultyMode :: string
  snapDistance :: real
  hardSnapDistance :: real
  selectedPieceIndex :: int
  pieceTransforms :: "PieceTransform list"
  piecesInfoRef :: "PieceInfo list"
  isDraggingRef :: dragging
  dragOffsetRef :: "real \<times> real \<times> real"

definition initialState :: AppState where
  "initialState =
     \<lparr>puzzleGameMode = False, puzzleScattered = False, difficultyMode = ''easy'',
      snapDistance = 20, hardSnapDistance = 5, selectedPieceIndex = -1, pieceTransforms = [], piecesInfoRef = [],
      isDraggingRef = NotDragging, dragOffsetRef = (0, 0, 0)\<rparr>"

definition setPuzzleGameMode :: "bool \<Rightarrow> AppState \<Rightarrow> AppState" where
  "setPuzzleGameMode payload s =
     (if \<not> payload then
        s\<lparr>puzzleGameMode := payload, puzzleScattered := False,
          selectedPieceIndex := -1, pieceTransforms := []\<rparr>
      else s\<lparr>puzzleGameMode := payload\<rparr>)"

definition setPuzzleScattered :: "bool \<Rightarrow> AppState \<Rightarrow> AppState" where
  "setPuzzleScattered payload s = s\<lparr>puzzleScattered := payload\<rparr>"

definition setDifficultyMode :: "string \<Rightarrow> AppState \<Rightarrow> AppState" where
  "setDifficultyMode payload s =
     (if payload = ''easy'' then s\<lparr>difficultyMode := payload, snapDistance := 20\<rparr>
      else s\<lparr>difficultyMode := payload, snapDistance := hardSnapDistance s\<rparr>)"

definition setSnapDistance :: "real \<Rightarrow> AppState \<Rightarrow> AppState" where
  "setSnapDistance payload s =
     (if difficultyMode s = ''hard''
      then s\<lparr>hardSnapDistance := payload, snapDistance := payload\<rparr>
      else s\<lparr>hardSnapDistance := payload\<rparr>)"

definition setSelectedPieceIndex :: "int \<Rightarrow> AppState \<Rightarrow> AppState" where
  "setSelectedPieceIndex payload s = s\<lparr>selectedPieceIndex := payload\<rparr>"

definition setPieceTransforms :: "PieceTransform list \<Rightarrow> AppState \<Rightarrow> AppState" where
  "setPieceTransforms payload s = s\<lparr>pieceTransforms := payload\<rparr>"

text \<open>
  The payload \<open>transform\<close> of \<open>updatePieceTransform\<close> is a partial pose: a property it
  does not have is \<open>None\<close>. The spread \<open>{...old, ...transform}\<close> keeps every property
  of the old object that the payload does not have.
\<close>

record TransformPatch =
  patchX :: "real option"
  patchY :: "real option"
  patchZ :: "real option"
  patchRotation :: "real option"
  patchIndex :: "int option"

definition mergeTransform :: "PieceTransform \<Rightarrow> TransformPatch \<Rightarrow> PieceTransform" where
  "mergeTransform old patch =
     \<lparr>tx = (case patchX patch of None \<Rightarrow> tx old | Some v \<Rightarrow> v),
      ty = (case patchY patch of None \<Rightarrow> ty old | Some v \<Rightarrow> v),
      tz = (case patchZ patch of None \<Rightarrow> tz old | Some v \<Rightarrow> v),
      trotation = (case patchRotation patch of None \<Rightarrow> trotation old | Some v \<Rightarrow> v),
      tindex = (case patchIndex patch of None \<Rightarrow> tindex old | Some k \<Rightarrow> Some k)\<rparr>"

definition updatePieceTransform :: "int \<Rightarrow> TransformPatch \<Rightarrow> AppState \<Rightarrow> AppState" where
  "updatePieceTransform idx patch s =
     (case js_at (pieceTransforms s) idx of
        Some old \<Rightarrow> s\<lparr>pieceTransforms := (pieceTransforms s)[nat idx := mergeTransform old patch]\<rparr>
      | None \<Rightarrow> s)"

section \<open>Interaction handlers (viewer component)\<close>

text \<open>The assembled pose of a piece: the object literal of initialisation and of assemble.\<close>

definition assembledTransform :: "PuzzleParams \<Rightarrow> PieceInfo \<Rightarrow> PieceTransform" where
  "assembledTransform params piece =
     \<lparr>tx = centerX piece, ty = centerY piece, tz = depth params / 2, trotation = 0,
      tindex = None\<rparr>"

text \<open>
  \<open>createPuzzlePieces\<close> with a scene present: it regenerates the pieces and, when the
  store holds no transforms, initialises them. Meshes and materials belong to the renderer.
\<close>

definition createPuzzlePieces :: "PuzzleParams \<Rightarrow> AppState \<Rightarrow> AppState" where
  "createPuzzlePieces params s =
     (let pieces = generateAllPieces params;
          s1 = s\<lparr>piecesInfoRef := pieces\<rparr>
      in if length (pieceTransforms s) = 0
         then setPieceTransforms (map (assembledTransform params) pieces) s1
         else s1)"

text \<open>
  \<open>handleScatter\<close>. \<open>Math.random\<close> is the sequence \<open>rnd\<close> of the draws made during the
  call: the callback for piece \<open>i\<close> draws three times, for the angle, the radius and the
  rotation, in that order.
\<close>

definition scatterTransform ::
  "PuzzleParams \<Rightarrow> (nat \<Rightarrow> real) \<Rightarrow> nat \<Rightarrow> nat \<Rightarrow> PieceTransform" where
  "scatterTransform params rnd n i =
     (let scatterRadius = max (width params) (height params) * 1.5;
          angle = (real i / real n) * pi * 2 + rnd (3 * i) * 0.5;
          radius = scatterRadius * (0.5 + rnd (3 * i + 1) * 0.5)
      in \<lparr>tx = cos angle * radius, ty = sin angle * radius, tz = depth params / 2,
          trotation = rnd (3 * i + 2) * pi * 2, tindex = None\<rparr>)"

definition handleScatter :: "PuzzleParams \<Rightarrow> (nat \<Rightarrow> real) \<Rightarrow> AppState \<Rightarrow> AppState" where
  "handleScatter params rnd s =
     (if length (piecesInfoRef s) = 0 then s
      else
        (let n = length (piecesInfoRef s);
             newTransforms = map (scatterTransform params rnd n) [0..<n]
         in setSelectedPieceIndex (-1)
              (setPuzzleScattered True (setPieceTransforms newTransforms s))))"

definition handleAssemble :: "PuzzleParams \<Rightarrow> AppState \<Rightarrow> AppState" where
  "handleAssemble params s =
     (if length (piecesInfoRef s) = 0 then s
      else
        (let newTransforms = map (assembledTransform params) (piecesInfoRef s)
         in setSelectedPieceIndex (-1)
              (setPuzzleScattered False (setPieceTransforms newTransforms s))))"

text \<open>
  Ray casting is the renderer's: a pointer event arrives with its \<open>clientX\<close>, \<open>clientY\<close>,
  whether the ray meets the rotation ring, the \<open>pieceIndex\<close> of the first mesh it meets,
  and the point where it meets the horizontal drag plane.
\<close>

record PointerEvent =
  clientX :: real
  clientY :: real
  hitsRotationHelper :: bool
  hitPiece :: "int option"
  planePoint :: vec2

definition handleMouseDown :: "PointerEvent \<Rightarrow> AppState \<Rightarrow> AppState" where
  "handleMouseDown ev s =
     (if \<not> puzzleGameMode s then s
      else if hitsRotationHelper ev \<and> selectedPieceIndex s \<ge> 0 then
        s\<lparr>isDraggingRef := Rotate,
          dragOffsetRef := (clientX ev, clientY ev,
            (case js_at (pieceTransforms s) (selectedPieceIndex s) of
               None \<Rightarrow> 0 | Some t \<Rightarrow> orZero (trotation t)))\<rparr>
      else
        (case hitPiece ev of
           Some pieceIndex \<Rightarrow>
             (let s1 = (setSelectedPieceIndex pieceIndex s)\<lparr>isDraggingRef := Drag\<rparr>
              in case js_at (pieceTransforms s) pieceIndex of
                   Some t \<Rightarrow>
                     s1\<lparr>dragOffsetRef :=
                          (tx t - fst (planePoint ev), ty t - snd (planePoint ev), 0)\<rparr>
                 | None \<Rightarrow> s1)
         | None \<Rightarrow> setSelectedPieceIndex (-1) s))"

definition rotatePatch :: "real \<Rightarrow> TransformPatch" where
  "rotatePatch r =
     \<lparr>patchX = None, patchY = None, patchZ = None, patchRotation = Some r, patchIndex = None\<rparr>"

definition movePatch :: "real \<Rightarrow> real \<Rightarrow> TransformPatch" where
  "movePatch px py =
     \<lparr>patchX = Some px, patchY = Some py, patchZ = None, patchRotation = None,
      patchIndex = None\<rparr>"

definition handleMouseMove :: "PointerEvent \<Rightarrow> AppState \<Rightarrow> AppState" where
  "handleMouseMove ev s =
     (if isDraggingRef s = NotDragging then s
      else if isDraggingRef s = Rotate \<and> selectedPieceIndex s \<ge> 0 then
        (let deltaX = clientX ev - fst (dragOffsetRef s);
             newRotation = snd (snd (dragOffsetRef s)) + deltaX * 0.01
         in updatePieceTransform (selectedPieceIndex s) (rotatePatch newRotation) s)
      else if isDraggingRef s = Drag \<and> selectedPieceIndex s \<ge> 0 then
        (case js_at (pieceTransforms s) (selectedPieceIndex s) of
           Some t \<Rightarrow>
             updatePieceTransform (selectedPieceIndex s)
               (movePatch (fst (planePoint ev) + fst (dragOffsetRef s))
                          (snd (planePoint ev) + fst (snd (dragOffsetRef s)))) s
         | None \<Rightarrow> s)
      else s)"

text \<open>The payload of the snap correction: \<open>{ x: targetX, y: targetY, rotation: targetRotation }\<close>.\<close>

definition snapPatch :: "SnapTarget \<Rightarrow> TransformPatch" where
  "snapPatch target =
     \<lparr>patchX = tTargetX target, patchY = tTargetY target, patchZ = None,
      patchRotation = tTargetRotation target, patchIndex = None\<rparr>"

definition handleMouseUp :: "AppState \<Rightarrow> AppState" where
  "handleMouseUp s =
     (if isDraggingRef s = NotDragging then s
      else
        (let s1 =
           (if isDraggingRef s = Drag \<and> selectedPieceIndex s \<ge> 0 then
              (case findSnapTargets (selectedPieceIndex s) (pieceTransforms s)
                      (piecesInfoRef s) (snapDistance s) of
                 target # _ \<Rightarrow>
                   if tCanSnap target
                   then updatePieceTransform (selectedPieceIndex s) (snapPatch target) s
                   else s
               | [] \<Rightarrow> s)
            else s)
         in s1\<lparr>isDraggingRef := NotDragging\<rparr>))"

text \<open>
  \<open>updateSnapHighlights\<close>: one highlight line per snap target found at twice the snap
  distance, kept when its intensity is positive. A line is represented by the neighbour
  it points at and its intensity; its vertices are rendering data.
\<close>

definition updateSnapHighlights :: "AppState \<Rightarrow> (int \<times> real) list" where
  "updateSnapHighlights s =
     (if selectedPieceIndex s < 0 \<or> isDraggingRef s = NotDragging then []
      else
        List.map_filter
          (\<lambda>target.
             if distanceValue (tDistance target) \<ge> snapDistance s * 2 then None
             else (let intensity = calculateEdgeHighlightIntensity
                                     (distanceValue (tDistance target)) (snapDistance s * 2)
                   in if intensity \<le> 0 then None else Some (neighborIndex target, intensity)))
          (findSnapTargets (selectedPieceIndex s) (pieceTransforms s) (piecesInfoRef s)
             (snapDistance s * 2)))"

text \<open>
  The states the application can be in: from the initial state of the slice, any sequence
  of the actions and handlers that write the pose store.
\<close>

inductive reachable :: "AppState \<Rightarrow> bool" where
  reach_init: "reachable initialState"
| reach_gameMode: "reachable s \<Longrightarrow> reachable (setPuzzleGameMode b s)"
| reach_difficulty: "reachable s \<Longrightarrow> reachable (setDifficultyMode m s)"
| reach_snapDistance: "reachable s \<Longrightarrow> reachable (setSnapDistance d s)"
| reach_reset: "reachable s \<Longrightarrow> reachable (setPieceTransforms [] s)"
| reach_create: "reachable s \<Longrightarrow> reachable (createPuzzlePieces params s)"
| reach_scatter: "reachable s \<Longrightarrow> reachable (handleScatter params rnd s)"
| reach_assemble: "reachable s \<Longrightarrow> reachable (handleAssemble params s)"
| reach_down: "reachable s \<Longrightarrow> reachable (handleMouseDown ev s)"
| reach_move: "reachable s \<Longrightarrow> reachable (handleMouseMove ev s)"
| reach_up: "reachable s \<Longrightarrow> reachable (handleMouseUp s)"

text \<open>The \<open>puzzleParams\<close> of the slice's \<open>initialState\<close> (colours left out).\<close>

definition initialPuzzleParams :: PuzzleParams where
  "initialPuzzleParams =
     \<lparr>width = 100, height = 100, depth = 10, gridX = 2, gridY = 2, splitMode = ''straight''\<rparr>"

text \<open>The pose objects of a state carry no \<open>index\<close> property.\<close>

definition noIndex :: "AppState \<Rightarrow> bool" where
  "noIndex s = (\<forall>t \<in> set (pieceTransforms s). tindex t = None)"

section \<open>Centroid of a polygon\<close>

text \<open>
  The centroid of the region enclosed by a closed ring of points, by the standard formula
  over the edges of the ring (each point joined to the next, the last to the first):
  with \<open>c\<^sub>i = x\<^sub>i * y\<^sub>i\<^sub>+\<^sub>1 - x\<^sub>i\<^sub>+\<^sub>1 * y\<^sub>i\<close>, the signed area is \<open>A = (\<Sum> c\<^sub>i) / 2\<close> and the
  centroid is \<open>((\<Sum> (x\<^sub>i + x\<^sub>i\<^sub>+\<^sub>1) * c\<^sub>i) / (6 * A), (\<Sum> (y\<^sub>i + y\<^sub>i\<^sub>+\<^sub>1) * c\<^sub>i) / (6 * A))\<close>.
\<close>

definition cross2 :: "vec2 \<Rightarrow> vec2 \<Rightarrow> real" where
  "cross2 p q = fst p * snd q - fst q * snd p"

definition ringEdges :: "vec2 list \<Rightarrow> (vec2 \<times> vec2) list" where
  "ringEdges pts = zip pts (rotate1 pts)"

definition signedArea :: "vec2 list \<Rightarrow> real" where
  "signedArea pts = (\<Sum>e\<leftarrow>ringEdges pts. cross2 (fst e) (snd e)) / 2"

definition polygonCentroid :: "vec2 list \<Rightarrow> vec2" where
  "polygonCentroid pts =
     ((\<Sum>e\<leftarrow>ringEdges pts. (fst (fst e) + fst (snd e)) * cross2 (fst e) (snd e))
        / (6 * signedArea pts),
      (\<Sum>e\<leftarrow>ringEdges pts. (snd (fst e) + snd (snd e)) * cross2 (fst e) (snd e))
        / (6 * signedArea pts))"

text \<open>
  A run of points along a horizontal or a vertical line, from one end to the other: the
  form every side of a piece has when the cut is straight.
\<close>

definition horizontalRun :: "real \<Rightarrow> real \<Rightarrow> real \<Rightarrow> vec2 list \<Rightarrow> bool" where
  "horizontalRun Y x1 x2 pts =
     (pts \<noteq> [] \<and> hd pts = (x1, Y) \<and> last pts = (x2, Y) \<and> (\<forall>p \<in> set pts. snd p = Y))"

definition verticalRun :: "real \<Rightarrow> real \<Rightarrow> real \<Rightarrow> vec2 list \<Rightarrow> bool" where
  "verticalRun X y1 y2 pts =
     (pts \<noteq> [] \<and> hd pts = (X, y1) \<and> last pts = (X, y2) \<and> (\<forall>p \<in> set pts. fst p = X))"

section \<open>Binary64 arithmetic of the edge generators\<close>

text \<open>
  A JavaScript number is an IEEE 754 binary64 value, and every arithmetic operation returns
  the double nearest to the exact result, ties going to the even significand. \<open>rne\<close> rounds
  a real to the nearest integer in that way; \<open>fl\<close> rounds a real to the nearest double: a
  multiple of \<open>2 ^ e\<close>, where \<open>e\<close> leaves a significand of 53 bits and is at least \<open>-1074\<close>, the
  exponent of the subnormal numbers. Overflow to \<open>Infinity\<close> is left out: \<open>fl\<close> is used
  below \<open>2 ^ 1024\<close> only.
\<close>

definition rne :: "real \<Rightarrow> int" where
  "rne x = (let f = \<lfloor>x\<rfloor>; r = x - of_int f
            in if r < 1 / 2 then f else if 1 / 2 < r then f + 1
               else if even f then f else f + 1)"

definition fl :: "real \<Rightarrow> real" where
  "fl x = (if x = 0 then 0
           else (let e = max (\<lfloor>log 2 \<bar>x\<bar>\<rfloor> - 52) (- 1074)
                 in of_int (rne (x / 2 powr of_int e)) * 2 powr of_int e))"

text \<open>
  \<open>Math.sin\<close>: the language leaves its last bits to the implementation; it is taken as the
  double nearest to the sine. \<open>Math.PI\<close> is the double nearest to \<open>pi\<close>.
\<close>

definition Math_sin :: "real \<Rightarrow> real" where
  "Math_sin x = fl (sin x)"

text \<open>
  \<open>splitOffset\<close> and the two edge generators once more, on doubles: the same expressions,
  each operation followed by its rounding, in the order in which the source evaluates them.
  The remainder \<open>%\<close> of two doubles is a double, and so are the negation of a double and
  the literals \<open>0.5\<close>, \<open>1\<close>, \<open>2\<close>, \<open>4\<close> and \<open>8\<close>; they need no rounding.
\<close>

definition splitOffset_f64 :: "real \<Rightarrow> string \<Rightarrow> real \<Rightarrow> real" where
  "splitOffset_f64 t mode amplitude =
     (if mode = ''wave'' then fl (Math_sin (fl (fl (t * fl pi) * 4)) * amplitude)
      else if mode = ''zigzag'' then
        (let zt = js_rem (fl (t * 8)) 1
         in fl (fl ((if zt < 0.5 then fl (zt * 2) else fl (fl (1 - zt) * 2)) * amplitude)
                - fl (amplitude * 0.5)))
      else 0)"

definition generateHorizontalEdge_f64 ::
  "real \<Rightarrow> real \<Rightarrow> real \<Rightarrow> string \<Rightarrow> real \<Rightarrow> nat \<Rightarrow> vec2 list" where
  "generateHorizontalEdge_f64 xStart xEnd Y mode amplitude segments =
     map (\<lambda>i. let t = fl (real i / real segments);
                   x = fl (xStart + fl (fl (xEnd - xStart) * t));
                   y = fl (Y + splitOffset_f64 t mode amplitude)
               in (x, y)) [0..<segments + 1]"

definition generateVerticalEdge_f64 ::
  "real \<Rightarrow> real \<Rightarrow> real \<Rightarrow> string \<Rightarrow> real \<Rightarrow> nat \<Rightarrow> vec2 list" where
  "generateVerticalEdge_f64 X yStart yEnd mode amplitude segments =
     map (\<lambda>i. let t = fl (real i / real segments);
                   y = fl (yStart + fl (fl (yEnd - yStart) * t));
                   x = fl (X + splitOffset_f64 t mode amplitude)
               in (x, y)) [0..<segments + 1]"

text \<open>
  The locals of \<open>createPieceShape\<close> on doubles (\<open>width\<close>, \<open>height\<close> and the grid counts are
  the doubles the caller passes), and the four \<open>pts\<close> sequences built from them.
\<close>

definition pieceW_f64 :: "PuzzleParams \<Rightarrow> real" where
  "pieceW_f64 params = fl (width params / of_int (gridX params))"

definition pieceH_f64 :: "PuzzleParams \<Rightarrow> real" where
  "pieceH_f64 params = fl (height params / of_int (gridY params))"

definition amplitudeOf_f64 :: "PuzzleParams \<Rightarrow> real" where
  "amplitudeOf_f64 params = fl (min (pieceW_f64 params) (pieceH_f64 params) * fl 0.08)"

definition xLeft_f64 :: "int \<Rightarrow> PuzzleParams \<Rightarrow> real" where
  "xLeft_f64 c params = fl (- fl (width params / 2) + fl (of_int c * pieceW_f64 params))"

definition xRight_f64 :: "int \<Rightarrow> PuzzleParams \<Rightarrow> real" where
  "xRight_f64 c params = fl (xLeft_f64 c params + pieceW_f64 params)"

definition yBottom_f64 :: "int \<Rightarrow> PuzzleParams \<Rightarrow> real" where
  "yBottom_f64 r params = fl (- fl (height params / 2) + fl (of_int r * pieceH_f64 params))"

definition yTop_f64 :: "int \<Rightarrow> PuzzleParams \<Rightarrow> real" where
  "yTop_f64 r params = fl (yBottom_f64 r params + pieceH_f64 params)"

definition bottomPts_f64 :: "int \<Rightarrow> int \<Rightarrow> PuzzleParams \<Rightarrow> vec2 list" where
  "bottomPts_f64 c r params =
     generateHorizontalEdge_f64 (xLeft_f64 c params) (xRight_f64 c params) (yBottom_f64 r params)
       (splitMode params) (amplitudeOf_f64 params) 30"

definition rightPts_f64 :: "int \<Rightarrow> int \<Rightarrow> PuzzleParams \<Rightarrow> vec2 list" where
  "rightPts_f64 c r params =
     generateVerticalEdge_f64 (xRight_f64 c params) (yBottom_f64 r params) (yTop_f64 r params)
       (splitMode params) (amplitudeOf_f64 params) 30"

definition topPts_f64 :: "int \<Rightarrow> int \<Rightarrow> PuzzleParams \<Rightarrow> vec2 list" where
  "topPts_f64 c r params =
     generateHorizontalEdge_f64 (xRight_f64 c params) (xLeft_f64 c params) (yTop_f64 r params)
       (splitMode params) (amplitudeOf_f64 params) 30"

definition leftPts_f64 :: "int \<Rightarrow> int \<Rightarrow> PuzzleParams \<Rightarrow> vec2 list" where
  "leftPts_f64 c r params =
     generateVerticalEdge_f64 (xLeft_f64 c params) (yTop_f64 r params) (yBottom_f64 r params)
       (splitMode params) (amplitudeOf_f64 params) 30"

text \<open>
  The boards for which the rounding of the edge generators is analysed: sizes that keep
  every intermediate value a normal double far from overflow, and grid counts that a
  double holds exactly.
\<close>

definition binary64_range :: "PuzzleParams \<Rightarrow> bool" where
  "binary64_range params \<longleftrightarrow>
     1 / 2 ^ 900 \<le> width params \<and> width params \<le> 2 ^ 900
     \<and> 1 / 2 ^ 900 \<le> height params \<and> height params \<le> 2 ^ 900
     \<and> 1 \<le> gridX params \<and> gridX params \<le> 2 ^ 53
     \<and> 1 \<le> gridY params \<and> gridY params \<le> 2 ^ 53"

section \<open>The boundary offset function\<close>

lemma js_rem_one: "0 \<le> v \<Longrightarrow> js_rem v 1 = v - of_int \<lfloor>v\<rfloor>"
  by (simp add: js_rem_def)

lemma js_rem_one_range: "0 \<le> v \<Longrightarrow> 0 \<le> js_rem v 1 \<and> js_rem v 1 < 1"
  by (simp add: js_rem_one) linarith

lemma js_rem_one_shift: "0 \<le> v \<Longrightarrow> js_rem (v + 1) 1 = js_rem v 1"
  by (simp add: js_rem_one)

lemma js_rem_one_between:
  "real k \<le> v \<Longrightarrow> v < real k + 1 \<Longrightarrow> js_rem v 1 = v - real k"
proof -
  assume a: "real k \<le> v" "v < real k + 1"
  then have "\<lfloor>v\<rfloor> = int k" by (intro floor_unique) auto
  moreover have "0 \<le> v" using a by (meson of_nat_0_le_iff order_trans)
  ultimately show ?thesis by (simp add: js_rem_one)
qed

lemma zigzag_range:
  assumes "0 \<le> t" "0 \<le> a"
  shows "- (a / 2) \<le> splitOffset t ''zigzag'' a \<and> splitOffset t ''zigzag'' a \<le> a / 2"
proof -
  let ?z = "js_rem (t * 8) 1"
  have z: "0 \<le> ?z" "?z < 1" using js_rem_one_range[of "t * 8"] assms by auto
  show ?thesis
  proof (cases "?z < 0.5")
    case True
    have h: "0 \<le> ?z * 2" "?z * 2 \<le> 1" using z True by auto
    have "0 \<le> ?z * 2 * a" "?z * 2 * a \<le> 1 * a"
      using mult_nonneg_nonneg[OF h(1) assms(2)] mult_right_mono[OF h(2) assms(2)] by auto
    then show ?thesis using True by (simp add: splitOffset_def Let_def algebra_simps)
  next
    case False
    have h: "0 \<le> (1 - ?z) * 2" "(1 - ?z) * 2 \<le> 1" using z False by auto
    have "0 \<le> (1 - ?z) * 2 * a" "(1 - ?z) * 2 * a \<le> 1 * a"
      using mult_nonneg_nonneg[OF h(1) assms(2)] mult_right_mono[OF h(2) assms(2)] by auto
    then show ?thesis using False by (simp add: splitOffset_def Let_def algebra_simps)
  qed
qed

lemma zigzag_period:
  assumes "0 \<le> t"
  shows "splitOffset (t + 1 / 8) ''zigzag'' a = splitOffset t ''zigzag'' a"
proof -
  have "(t + 1 / 8) * 8 = t * 8 + 1" by (simp add: algebra_simps)
  then show ?thesis using js_rem_one_shift[of "t * 8"] assms by (simp add: splitOffset_def)
qed

lemma zigzag_rising:
  assumes "real k / 8 \<le> t" "t < real k / 8 + 1 / 16"
  shows "splitOffset t ''zigzag'' a = 16 * a * (t - real k / 8) - a / 2"
proof -
  have e: "js_rem (t * 8) 1 = t * 8 - real k"
    using assms by (intro js_rem_one_between) (auto simp: field_simps)
  have lt: "t * 8 - real k < 0.5" using assms by (simp add: field_simps)
  show ?thesis unfolding splitOffset_def Let_def e using lt by (simp add: algebra_simps)
qed

lemma zigzag_falling:
  assumes "real k / 8 + 1 / 16 \<le> t" "t < real (k + 1) / 8"
  shows "splitOffset t ''zigzag'' a = a / 2 - 16 * a * (t - real k / 8 - 1 / 16)"
proof -
  have e: "js_rem (t * 8) 1 = t * 8 - real k"
    using assms by (intro js_rem_one_between) (auto simp: field_simps)
  have ge: "\<not> t * 8 - real k < 0.5" using assms by (simp add: field_simps)
  show ?thesis unfolding splitOffset_def Let_def e using ge by (simp add: algebra_simps)
qed

lemma js_rem_one_reflect:
  assumes "0 \<le> v" "v \<le> n" "n = of_int m"
  shows "js_rem (n - v) 1 = (if js_rem v 1 = 0 then 0 else 1 - js_rem v 1)"
proof -
  have nv: "0 \<le> n - v" using assms by simp
  show ?thesis
  proof (cases "v = of_int \<lfloor>v\<rfloor>")
    case True
    then have "n - v = of_int (m - \<lfloor>v\<rfloor>)" using assms by simp
    then have "\<lfloor>n - v\<rfloor> = m - \<lfloor>v\<rfloor>" by (simp only: floor_of_int)
    then have "js_rem (n - v) 1 = 0" using True nv assms by (simp add: js_rem_one)
    moreover have "js_rem v 1 = 0" using True assms by (simp add: js_rem_one)
    ultimately show ?thesis by simp
  next
    case False
    then have lt: "of_int \<lfloor>v\<rfloor> < v" by (metis of_int_floor_le order_less_le)
    have "\<lfloor>n - v\<rfloor> = m - \<lfloor>v\<rfloor> - 1"
      using lt assms by (intro floor_unique) (auto, linarith)
    then have "js_rem (n - v) 1 = 1 - (v - of_int \<lfloor>v\<rfloor>)"
      using nv assms by (simp add: js_rem_one)
    moreover have "js_rem v 1 = v - of_int \<lfloor>v\<rfloor>" using assms by (simp add: js_rem_one)
    ultimately show ?thesis using False by simp
  qed
qed

lemma splitOffset_zigzag:
  "splitOffset t ''zigzag'' a =
     (if js_rem (t * 8) 1 < 0.5 then js_rem (t * 8) 1 * 2 else (1 - js_rem (t * 8) 1) * 2) * a
       - a * 0.5"
  by (simp add: splitOffset_def Let_def)

lemma zigzag_even:
  assumes "0 \<le> t" "t \<le> 1"
  shows "splitOffset (1 - t) ''zigzag'' a = splitOffset t ''zigzag'' a"
proof -
  define z where "z = js_rem (t * 8) 1"
  define z' where "z' = js_rem ((1 - t) * 8) 1"
  have z: "0 \<le> z" "z < 1" using js_rem_one_range[of "t * 8"] assms by (auto simp: z_def)
  have e8: "(1 - t) * 8 = 8 - t * 8" by (simp add: algebra_simps)
  have "js_rem (8 - t * 8) 1 = (if js_rem (t * 8) 1 = 0 then 0 else 1 - js_rem (t * 8) 1)"
    using assms by (intro js_rem_one_reflect[where m = 8]) auto
  then have r: "z' = (if z = 0 then 0 else 1 - z)"
    unfolding z_def z'_def e8 .
  have tri: "(if z' < 0.5 then z' * 2 else (1 - z') * 2) = (if z < 0.5 then z * 2 else (1 - z) * 2)"
  proof (cases "z = 0")
    case True
    then show ?thesis using r by simp
  next
    case False
    then have e: "z' = 1 - z" using r by simp
    consider "z < 0.5" | "z = 0.5" | "z > 0.5" by linarith
    then show ?thesis
    proof cases
      case 1 then show ?thesis unfolding e by simp
    next
      case 2 then show ?thesis unfolding e by simp
    next
      case 3 then show ?thesis unfolding e by simp
    qed
  qed
  have "splitOffset (1 - t) ''zigzag'' a = (if z' < 0.5 then z' * 2 else (1 - z') * 2) * a - a * 0.5"
    unfolding z'_def by (rule splitOffset_zigzag)
  also have "\<dots> = (if z < 0.5 then z * 2 else (1 - z) * 2) * a - a * 0.5"
    by (simp only: tri)
  also have "\<dots> = splitOffset t ''zigzag'' a"
    unfolding z_def by (rule splitOffset_zigzag[symmetric])
  finally show ?thesis .
qed

lemma wave_odd: "splitOffset (1 - t) ''wave'' a = - splitOffset t ''wave'' a"
proof -
  have "sin ((1 - t) * pi * 4) = sin ((- (t * pi * 4) + 2 * pi) + 2 * pi)"
    by (simp add: algebra_simps)
  also have "\<dots> = sin (- (t * pi * 4))"
    by (simp only: sin_periodic)
  finally show ?thesis by (simp add: splitOffset_def)
qed

section \<open>Sampled edges and their reversal\<close>

lemma length_horizontal [simp]: "length (generateHorizontalEdge x1 x2 Y m a n) = n + 1"
  by (simp add: generateHorizontalEdge_def)

lemma length_vertical [simp]: "length (generateVerticalEdge X y1 y2 m a n) = n + 1"
  by (simp add: generateVerticalEdge_def)

lemma nth_horizontal:
  "i \<le> n \<Longrightarrow> generateHorizontalEdge x1 x2 Y m a n ! i =
     (x1 + (x2 - x1) * (real i / real n), Y + splitOffset (real i / real n) m a)"
  unfolding generateHorizontalEdge_def Let_def
  by (subst nth_map) (simp_all add: nth_upt del: upt_Suc)

lemma nth_vertical:
  "i \<le> n \<Longrightarrow> generateVerticalEdge X y1 y2 m a n ! i =
     (X + splitOffset (real i / real n) m a, y1 + (y2 - y1) * (real i / real n))"
  unfolding generateVerticalEdge_def Let_def
  by (subst nth_map) (simp_all add: nth_upt del: upt_Suc)

lemma rev_param: "0 < n \<Longrightarrow> i \<le> n \<Longrightarrow> real (n - i) / real n = 1 - real i / real n"
  by (simp add: of_nat_diff field_simps)

lemma lerp_reverse: "p + (q - p) * (1 - u) = q + (p - q) * (u::real)"
  by (simp add: algebra_simps)

lemma nth_rev_horizontal:
  assumes "0 < n" "i \<le> n"
  shows "rev (generateHorizontalEdge x1 x2 Y m a n) ! i =
     (x2 + (x1 - x2) * (real i / real n), Y + splitOffset (1 - real i / real n) m a)"
proof -
  have "rev (generateHorizontalEdge x1 x2 Y m a n) ! i = generateHorizontalEdge x1 x2 Y m a n ! (n - i)"
    using assms by (simp add: rev_nth)
  also have "\<dots> = (x1 + (x2 - x1) * (real (n - i) / real n), Y + splitOffset (real (n - i) / real n) m a)"
    by (rule nth_horizontal) simp
  also have "\<dots> = (x2 + (x1 - x2) * (real i / real n), Y + splitOffset (1 - real i / real n) m a)"
    unfolding rev_param[OF assms] lerp_reverse ..
  finally show ?thesis .
qed

lemma nth_rev_vertical:
  assumes "0 < n" "i \<le> n"
  shows "rev (generateVerticalEdge X y1 y2 m a n) ! i =
     (X + splitOffset (1 - real i / real n) m a, y2 + (y1 - y2) * (real i / real n))"
proof -
  have "rev (generateVerticalEdge X y1 y2 m a n) ! i = generateVerticalEdge X y1 y2 m a n ! (n - i)"
    using assms by (simp add: rev_nth)
  also have "\<dots> = (X + splitOffset (real (n - i) / real n) m a, y1 + (y2 - y1) * (real (n - i) / real n))"
    by (rule nth_vertical) simp
  also have "\<dots> = (X + splitOffset (1 - real i / real n) m a, y2 + (y1 - y2) * (real i / real n))"
    unfolding rev_param[OF assms] lerp_reverse ..
  finally show ?thesis .
qed

lemma unit_param: "0 < n \<Longrightarrow> i \<le> n \<Longrightarrow> 0 \<le> real i / real n \<and> real i / real n \<le> 1"
  by simp

lemma rev_horizontal_even:
  assumes "0 < n" "\<And>t. 0 \<le> t \<Longrightarrow> t \<le> 1 \<Longrightarrow> splitOffset (1 - t) m a = splitOffset t m a"
  shows "rev (generateHorizontalEdge x1 x2 Y m a n) = generateHorizontalEdge x2 x1 Y m a n"
proof (rule nth_equalityI)
  show "length (rev (generateHorizontalEdge x1 x2 Y m a n)) = length (generateHorizontalEdge x2 x1 Y m a n)"
    by simp
next
  fix i assume "i < length (rev (generateHorizontalEdge x1 x2 Y m a n))"
  then have i: "i \<le> n" by simp
  show "rev (generateHorizontalEdge x1 x2 Y m a n) ! i = generateHorizontalEdge x2 x1 Y m a n ! i"
    using unit_param[OF assms(1) i] 
    by (simp add: nth_rev_horizontal[OF assms(1) i] nth_horizontal[OF i] assms(2))
qed

lemma rev_vertical_even:
  assumes "0 < n" "\<And>t. 0 \<le> t \<Longrightarrow> t \<le> 1 \<Longrightarrow> splitOffset (1 - t) m a = splitOffset t m a"
  shows "rev (generateVerticalEdge X y1 y2 m a n) = generateVerticalEdge X y2 y1 m a n"
proof (rule nth_equalityI)
  show "length (rev (generateVerticalEdge X y1 y2 m a n)) = length (generateVerticalEdge X y2 y1 m a n)"
    by simp
next
  fix i assume "i < length (rev (generateVerticalEdge X y1 y2 m a n))"
  then have i: "i \<le> n" by simp
  show "rev (generateVerticalEdge X y1 y2 m a n) ! i = generateVerticalEdge X y2 y1 m a n ! i"
    using unit_param[OF assms(1) i] 
    by (simp add: nth_rev_vertical[OF assms(1) i] nth_vertical[OF i] assms(2))
qed

lemma shared_x: "xRight c params = xLeft (c + 1) params"
  by (simp add: xRight_def xLeft_def algebra_simps)

lemma shared_y: "yTop r params = yBottom (r + 1) params"
  by (simp add: yTop_def yBottom_def algebra_simps)

lemma amplitude_mode [simp]: "amplitudeOf (params\<lparr>splitMode := m\<rparr>) = amplitudeOf params"
  by (simp add: amplitudeOf_def pieceW_def pieceH_def)

lemma splitOffset_straight [simp]: "splitOffset t ''straight'' a = 0"
  by (simp add: splitOffset_def)

text \<open>
  With \<open>splitMode = 'straight'\<close>, the formulas for the 31 points of the top side of a piece,
  read backwards, denote in exact arithmetic the 31 points of the bottom side of the piece
  above it; likewise the left side of a piece, read backwards, and the right side of the
  piece to its left.
\<close>

lemma straight_edges_exact:
  assumes "splitMode params = ''straight''"
  shows "rev (topPts c r params) = bottomPts c (r + 1) params"
    and "rev (leftPts (c + 1) r params) = rightPts c r params"
proof -
  show "rev (topPts c r params) = bottomPts c (r + 1) params"
    unfolding topPts_def bottomPts_def assms
    by (subst rev_horizontal_even) (simp_all add: shared_x shared_y xRight_def yTop_def)
  show "rev (leftPts (c + 1) r params) = rightPts c r params"
    unfolding leftPts_def rightPts_def assms
    by (subst rev_vertical_even) (simp_all add: shared_x shared_y)
qed

lemma splitMode_update [simp]: "splitMode (params\<lparr>splitMode := m\<rparr>) = m"
  by simp

lemma corners_mode [simp]:
  "xLeft c (params\<lparr>splitMode := m\<rparr>) = xLeft c params"
  "xRight c (params\<lparr>splitMode := m\<rparr>) = xRight c params"
  "yBottom r (params\<lparr>splitMode := m\<rparr>) = yBottom r params"
  "yTop r (params\<lparr>splitMode := m\<rparr>) = yTop r params"
  by (simp_all add: xLeft_def xRight_def yBottom_def yTop_def pieceW_def pieceH_def)

text \<open>
  Claim C9. For \<open>t\<close> in \<open>[0, 1]\<close> and amplitude \<open>a \<ge> 0\<close>, \<open>splitOffset\<close> is \<open>0\<close> for
  \<open>'straight'\<close>, \<open>sin (t * 4 * pi) * a\<close> for \<open>'wave'\<close>, and for \<open>'zigzag'\<close> a triangular wave
  of period \<open>1/8\<close> with values in \<open>[-a/2, a/2]\<close>: it repeats after \<open>1/8\<close>, and within
  the \<open>k\<close>-th period it rises linearly from \<open>-a/2\<close> over the first half and falls
  linearly from \<open>a/2\<close> over the second.
\<close>

theorem splitOffset_shape:
  assumes "0 \<le> t" "t \<le> 1" "0 \<le> a"
  shows "splitOffset t ''straight'' a = 0
       \<and> splitOffset t ''wave'' a = sin (t * 4 * pi) * a
       \<and> - (a / 2) \<le> splitOffset t ''zigzag'' a \<and> splitOffset t ''zigzag'' a \<le> a / 2
       \<and> splitOffset (t + 1 / 8) ''zigzag'' a = splitOffset t ''zigzag'' a
       \<and> (\<forall>k::nat. real k / 8 \<le> t \<and> t < real k / 8 + 1 / 16 \<longrightarrow>
             splitOffset t ''zigzag'' a = 16 * a * (t - real k / 8) - a / 2)
       \<and> (\<forall>k::nat. real k / 8 + 1 / 16 \<le> t \<and> t < real (k + 1) / 8 \<longrightarrow>
             splitOffset t ''zigzag'' a = a / 2 - 16 * a * (t - real k / 8 - 1 / 16))"
proof -
  have w: "splitOffset t ''wave'' a = sin (t * 4 * pi) * a"
    by (simp add: splitOffset_def mult.assoc mult.commute[of pi 4])
  show ?thesis
    using zigzag_range[OF assms(1,3)] zigzag_period[OF assms(1), of a] w
      zigzag_rising[of _ t a] zigzag_falling[of _ t a]
    by (intro conjI allI impI) (simp_all del: of_nat_Suc of_nat_add)
qed

text \<open>
  An instance: \<open>t = 1/32\<close> lies on the rising half of period \<open>0\<close>, \<open>t = 3/32\<close> on the
  falling half.
\<close>

theorem splitOffset_shape_witness:
  "splitOffset (1 / 32) ''straight'' 4 = 0
   \<and> splitOffset (1 / 32) ''wave'' 4 = sin (1 / 32 * 4 * pi) * 4
   \<and> - (4 / 2) \<le> splitOffset (1 / 32) ''zigzag'' 4 \<and> splitOffset (1 / 32) ''zigzag'' 4 \<le> 4 / 2
   \<and> splitOffset (1 / 32 + 1 / 8) ''zigzag'' 4 = splitOffset (1 / 32) ''zigzag'' 4
   \<and> splitOffset (1 / 32) ''zigzag'' 4 = 16 * 4 * (1 / 32 - real (0::nat) / 8) - 4 / 2
   \<and> splitOffset (3 / 32) ''zigzag'' 4 = 4 / 2 - 16 * 4 * (3 / 32 - real (0::nat) / 8 - 1 / 16)"
proof -
  have h: "(0::real) \<le> 1 / 32" "(1::real) / 32 \<le> 1" "(0::real) \<le> 3 / 32" "(3::real) / 32 \<le> 1"
    "(0::real) \<le> 4" by simp_all
  have r: "real (0::nat) / 8 \<le> 1 / 32 \<and> (1::real) / 32 < real (0::nat) / 8 + 1 / 16" by simp
  have f: "real (0::nat) / 8 + 1 / 16 \<le> 3 / 32 \<and> (3::real) / 32 < real ((0::nat) + 1) / 8" by simp
  from splitOffset_shape[OF h(1) h(2) h(5)] splitOffset_shape[OF h(3) h(4) h(5)] r f
  show ?thesis by blast
qed

lemma wave_first_sample_nonzero:
  assumes "a \<noteq> 0"
  shows "splitOffset (real (1::nat) / 30) ''wave'' a \<noteq> 0"
proof -
  have "0 < 1 / 30 * pi * 4" by simp
  moreover have "1 / 30 * pi * 4 < pi" by simp
  ultimately have "0 < sin (1 / 30 * pi * 4)" by (rule sin_gt_zero)
  then show ?thesis using assms by (simp add: splitOffset_def)
qed

text \<open>
  With \<open>'zigzag'\<close>, whose offset is even under \<open>t \<mapsto> 1 - t\<close>, the formulas of the two pieces on
  either side of a grid line denote the same points in exact arithmetic, one sequence read
  backwards.
\<close>

lemma zigzag_edges_exact:
  shows "rev (topPts c r (params\<lparr>splitMode := ''zigzag''\<rparr>))
         = bottomPts c (r + 1) (params\<lparr>splitMode := ''zigzag''\<rparr>)"
    and "rev (leftPts (c + 1) r (params\<lparr>splitMode := ''zigzag''\<rparr>))
         = rightPts c r (params\<lparr>splitMode := ''zigzag''\<rparr>)"
proof -
  show "rev (topPts c r (params\<lparr>splitMode := ''zigzag''\<rparr>))
            = bottomPts c (r + 1) (params\<lparr>splitMode := ''zigzag''\<rparr>)"
    unfolding topPts_def bottomPts_def
    by (subst rev_horizontal_even) (simp_all add: zigzag_even shared_x[symmetric] shared_y[symmetric] xRight_def)
  show "rev (leftPts (c + 1) r (params\<lparr>splitMode := ''zigzag''\<rparr>))
            = rightPts c r (params\<lparr>splitMode := ''zigzag''\<rparr>)"
    unfolding leftPts_def rightPts_def
    by (subst rev_vertical_even) (simp_all add: zigzag_even shared_x[symmetric] shared_y[symmetric])
qed

text \<open>
  With \<open>'wave'\<close>, whose offset is odd, the two sequences have the same positions along the
  line and opposite offsets.
\<close>

lemma wave_points_exact:
  assumes i: "i \<le> 30"
  shows "rev (topPts c r (params\<lparr>splitMode := ''wave''\<rparr>)) ! i
              = (xLeft c params + (xRight c params - xLeft c params) * (real i / 30),
                 yTop r params - splitOffset (real i / 30) ''wave'' (amplitudeOf params))
          \<and> bottomPts c (r + 1) (params\<lparr>splitMode := ''wave''\<rparr>) ! i
              = (xLeft c params + (xRight c params - xLeft c params) * (real i / 30),
                 yTop r params + splitOffset (real i / 30) ''wave'' (amplitudeOf params))
          \<and> rev (leftPts (c + 1) r (params\<lparr>splitMode := ''wave''\<rparr>)) ! i
              = (xRight c params - splitOffset (real i / 30) ''wave'' (amplitudeOf params),
                 yBottom r params + (yTop r params - yBottom r params) * (real i / 30))
          \<and> rightPts c r (params\<lparr>splitMode := ''wave''\<rparr>) ! i
              = (xRight c params + splitOffset (real i / 30) ''wave'' (amplitudeOf params),
                 yBottom r params + (yTop r params - yBottom r params) * (real i / 30))"
proof -
  have n: "(0::nat) < 30" by simp
  show ?thesis
    unfolding topPts_def bottomPts_def leftPts_def rightPts_def
    using nth_rev_horizontal[OF n i] nth_rev_vertical[OF n i] nth_horizontal[OF i] nth_vertical[OF i]
    by (simp add: wave_odd shared_x[symmetric] shared_y[symmetric])
qed

lemma wave_points_coincide:
  assumes i: "i \<le> 30"
  shows "((rev (topPts c r (params\<lparr>splitMode := ''wave''\<rparr>)) ! i
                = bottomPts c (r + 1) (params\<lparr>splitMode := ''wave''\<rparr>) ! i)
               = (splitOffset (real i / 30) ''wave'' (amplitudeOf params) = 0))
          \<and> ((rev (leftPts (c + 1) r (params\<lparr>splitMode := ''wave''\<rparr>)) ! i
                = rightPts c r (params\<lparr>splitMode := ''wave''\<rparr>) ! i)
               = (splitOffset (real i / 30) ''wave'' (amplitudeOf params) = 0))"
  using wave_points_exact[OF i, of c r params] by auto

lemma wave_edges_differ:
  assumes a: "amplitudeOf params \<noteq> 0"
  shows "rev (topPts c r (params\<lparr>splitMode := ''wave''\<rparr>))
              \<noteq> bottomPts c (r + 1) (params\<lparr>splitMode := ''wave''\<rparr>)"
    and "rev (leftPts (c + 1) r (params\<lparr>splitMode := ''wave''\<rparr>))
              \<noteq> rightPts c r (params\<lparr>splitMode := ''wave''\<rparr>)"
proof -
  have one: "(1::nat) \<le> 30" by simp
  show "rev (topPts c r (params\<lparr>splitMode := ''wave''\<rparr>))
              \<noteq> bottomPts c (r + 1) (params\<lparr>splitMode := ''wave''\<rparr>)"
  proof
    assume "rev (topPts c r (params\<lparr>splitMode := ''wave''\<rparr>))
              = bottomPts c (r + 1) (params\<lparr>splitMode := ''wave''\<rparr>)"
    then have "rev (topPts c r (params\<lparr>splitMode := ''wave''\<rparr>)) ! 1
              = bottomPts c (r + 1) (params\<lparr>splitMode := ''wave''\<rparr>) ! 1" by simp
    then show False
      using wave_points_coincide[OF one, of c r params] wave_first_sample_nonzero[OF a] by blast
  qed
  show "rev (leftPts (c + 1) r (params\<lparr>splitMode := ''wave''\<rparr>))
              \<noteq> rightPts c r (params\<lparr>splitMode := ''wave''\<rparr>)"
  proof
    assume "rev (leftPts (c + 1) r (params\<lparr>splitMode := ''wave''\<rparr>))
              = rightPts c r (params\<lparr>splitMode := ''wave''\<rparr>)"
    then have "rev (leftPts (c + 1) r (params\<lparr>splitMode := ''wave''\<rparr>)) ! 1
              = rightPts c r (params\<lparr>splitMode := ''wave''\<rparr>) ! 1" by simp
    then show False
      using wave_points_coincide[OF one, of c r params] wave_first_sample_nonzero[OF a] by blast
  qed
qed

lemma initial_amplitude: "amplitudeOf initialPuzzleParams = 4"
  by (simp add: amplitudeOf_def pieceW_def pieceH_def initialPuzzleParams_def)

section \<open>The edge samples in binary64 arithmetic\<close>

text \<open>
  Evaluation of \<open>fl\<close>: once the binary exponent of the argument is known, rounding to a
  double is rounding a scaled value to an integer.
\<close>

lemma floor_log2_between:
  assumes "2 powr of_int k \<le> x" "x < 2 powr of_int (k + 1)"
  shows "\<lfloor>log 2 x\<rfloor> = k"
proof -
  have "(0::real) < 2 powr of_int k" by simp
  then have pos: "0 < x" using assms(1) by linarith
  have e: "of_int (k + 1) = (of_int k :: real) + 1" by simp
  show ?thesis
    using floor_log_eq_powr_iff[of x 2 k] pos assms unfolding e by simp
qed

lemma pow2_neg: "2 powr of_int (- int k) = 1 / (2::real) ^ k"
  by (simp add: powr_minus powr_realpow divide_inverse)

lemma fl_up:
  assumes "2 ^ m \<le> \<bar>x\<bar>" "\<bar>x\<bar> < 2 ^ (m + 1)" "m \<le> 52"
  shows "fl x = of_int (rne (x * 2 ^ (52 - m))) / 2 ^ (52 - m)"
proof -
  have "0 < \<bar>x\<bar>" using assms(1) zero_less_power[of "2::real" m] by linarith
  then have nz: "x \<noteq> 0" by simp
  have a: "2 powr of_int (int m) \<le> \<bar>x\<bar>" using assms(1) by (simp add: powr_realpow)
  have "2 powr of_int (int m + 1) = (2::real) ^ (m + 1)"
    using powr_realpow[of 2 "m + 1"] by (simp add: add.commute)
  then have b: "\<bar>x\<bar> < 2 powr of_int (int m + 1)" using assms(2) by simp
  have fl2: "\<lfloor>log 2 \<bar>x\<bar>\<rfloor> = int m" by (rule floor_log2_between[OF a b])
  have e: "max (int m - 52) (- 1074) = - int (52 - m)" using assms(3) by simp
  have p: "2 powr of_int (- int (52 - m)) = 1 / (2::real) ^ (52 - m)"
    by (rule pow2_neg)
  show ?thesis unfolding fl_def fl2 e p Let_def using nz by simp
qed

lemma fl_down:
  assumes "1 \<le> \<bar>x\<bar> * 2 ^ n" "\<bar>x\<bar> * 2 ^ n < 2" "n \<le> 1022"
  shows "fl x = of_int (rne (x * 2 ^ (52 + n))) / 2 ^ (52 + n)"
proof -
  have "0 < \<bar>x\<bar> * 2 ^ n" using assms(1) by linarith
  then have nz: "x \<noteq> 0" by auto
  have q: "2 powr of_int (- int n) = 1 / (2::real) ^ n"
    by (rule pow2_neg)
  have a: "2 powr of_int (- int n) \<le> \<bar>x\<bar>" unfolding q using assms(1) by (simp add: field_simps)
  have "(2::real) powr (of_int (- int n) + 1) = 2 powr of_int (- int n) * 2 powr 1"
    by (rule powr_add)
  moreover have "(of_int (- int n + 1) :: real) = of_int (- int n) + 1" by simp
  ultimately have "2 powr of_int (- int n + 1) = 2 powr of_int (- int n) * (2::real)"
    by simp
  then have r: "2 powr of_int (- int n + 1) = 2 / (2::real) ^ n" unfolding q by simp
  have "\<bar>x\<bar> < 2 / 2 ^ n" using assms(2) by (simp add: pos_less_divide_eq)
  then have b: "\<bar>x\<bar> < 2 powr of_int (- int n + 1)" unfolding r .
  have fl2: "\<lfloor>log 2 \<bar>x\<bar>\<rfloor> = - int n" by (rule floor_log2_between[OF a b])
  have e: "max (- int n - 52) (- 1074) = - int (52 + n)" using assms(3) by simp
  have p: "2 powr of_int (- int (52 + n)) = 1 / (2::real) ^ (52 + n)"
    by (rule pow2_neg)
  show ?thesis unfolding fl_def fl2 e p Let_def using nz by simp
qed

lemma fl_zero [simp]: "fl 0 = 0"
  by (simp add: fl_def)

text \<open>The roundings that occur on the sides of the initial 2 by 2 grid.\<close>

lemma fl_50: "fl (50) = 50"
  by (subst fl_up[where m = 5]) (simp_all add: rne_def)

lemma fl_m50: "fl (- 50) = - 50"
  by (subst fl_up[where m = 5]) (simp_all add: rne_def)

lemma fl_t10: "fl (1 / 3) = 6004799503160661 / 18014398509481984"
  by (subst fl_down[where n = 2]) (simp_all add: rne_def)

lemma fl_t20: "fl (2 / 3) = 6004799503160661 / 9007199254740992"
  by (subst fl_down[where n = 1]) (simp_all add: rne_def)

lemma fl_top20: "fl (- (150119987579016525 / 4503599627370496)) = - (2345624805922133 / 70368744177664)"
  by (subst fl_up[where m = 5]) (simp_all add: rne_def)

lemma fl_top20_id: "fl (- (2345624805922133 / 70368744177664)) = - (2345624805922133 / 70368744177664)"
  by (subst fl_up[where m = 5]) (simp_all add: rne_def)

lemma fl_bot10a: "fl (150119987579016525 / 9007199254740992) = 2345624805922133 / 140737488355328"
  by (subst fl_up[where m = 4]) (simp_all add: rne_def)

lemma fl_bot10: "fl (- (4691249611844267 / 140737488355328)) = - (4691249611844267 / 140737488355328)"
  by (subst fl_up[where m = 5]) (simp_all add: rne_def)

lemma fl_t1: "fl (1 / 30) = 4803839602528529 / 144115188075855872"
  by (subst fl_down[where n = 5]) (simp_all add: rne_def)

lemma fl_u: "fl (139311348473327343 / 144115188075855872) = 8706959279582959 / 9007199254740992"
  by (subst fl_down[where n = 1]) (simp_all add: rne_def)

lemma fl_zA: "fl (8706959279582959 / 1125899906842624) = 8706959279582959 / 1125899906842624"
  by (subst fl_up[where m = 2]) (simp_all add: rne_def)

lemma fl_zE: "fl (300239975158033 / 1125899906842624) = 300239975158033 / 1125899906842624"
  by (subst fl_down[where n = 2]) (simp_all add: rne_def)

lemma fl_zB: "fl (300239975158033 / 562949953421312) = 300239975158033 / 562949953421312"
  by (subst fl_down[where n = 1]) (simp_all add: rne_def)

lemma fl_zC: "fl (300239975158033 / 140737488355328) = 300239975158033 / 140737488355328"
  by (subst fl_up[where m = 1]) (simp_all add: rne_def)

lemma fl_2: "fl (2) = 2"
  by (subst fl_up[where m = 1]) (simp_all add: rne_def)

lemma fl_zR: "fl (18764998447377 / 140737488355328) = 18764998447377 / 140737488355328"
  by (subst fl_down[where n = 3]) (simp_all add: rne_def)

lemma fl_yA: "fl (4803839602528529 / 18014398509481984) = 4803839602528529 / 18014398509481984"
  by (subst fl_down[where n = 2]) (simp_all add: rne_def)

lemma fl_yB: "fl (4803839602528529 / 9007199254740992) = 4803839602528529 / 9007199254740992"
  by (subst fl_down[where n = 1]) (simp_all add: rne_def)

lemma fl_yC: "fl (4803839602528529 / 2251799813685248) = 4803839602528529 / 2251799813685248"
  by (subst fl_up[where m = 1]) (simp_all add: rne_def)

lemma fl_yR: "fl (300239975158033 / 2251799813685248) = 300239975158033 / 2251799813685248"
  by (subst fl_down[where n = 3]) (simp_all add: rne_def)

lemma fl_008: "fl (2 / 25) = 5764607523034235 / 72057594037927936"
  by (subst fl_down[where n = 4]) (simp_all add: rne_def)

lemma fl_amp: "fl (144115188075855875 / 36028797018963968) = 4"
  by (subst fl_up[where m = 2]) (simp_all add: rne_def)

lemma fl_t29: "fl (29 / 30) = 8706959279582959 / 9007199254740992"
  by (subst fl_down[where n = 1]) (simp_all add: rne_def)

lemma fl_top29: "fl (- (217673981989573975 / 4503599627370496)) = - (6802311937174187 / 140737488355328)"
  by (subst fl_up[where m = 5]) (simp_all add: rne_def)

lemma fl_top29_id: "fl (- (6802311937174187 / 140737488355328)) = - (6802311937174187 / 140737488355328)"
  by (subst fl_up[where m = 5]) (simp_all add: rne_def)

lemma fl_bot1a: "fl (120095990063213225 / 72057594037927936) = 7505999378950827 / 4503599627370496"
  by (subst fl_up[where m = 0]) (simp_all add: rne_def)

lemma fl_bot1: "fl (- (217673981989573973 / 4503599627370496)) = - (6802311937174187 / 140737488355328)"
  by (subst fl_up[where m = 5]) (simp_all add: rne_def)

lemma length_horizontal_f64 [simp]:
  "length (generateHorizontalEdge_f64 x1 x2 Y m a n) = n + 1"
  by (simp add: generateHorizontalEdge_f64_def)

lemma length_vertical_f64 [simp]:
  "length (generateVerticalEdge_f64 X y1 y2 m a n) = n + 1"
  by (simp add: generateVerticalEdge_f64_def)

lemma nth_horizontal_f64:
  assumes "i \<le> n"
  shows "generateHorizontalEdge_f64 x1 x2 Y m a n ! i
         = (fl (x1 + fl (fl (x2 - x1) * fl (real i / real n))),
            fl (Y + splitOffset_f64 (fl (real i / real n)) m a))"
proof -
  have "i < length [0..<n + 1]" using assms by simp
  then show ?thesis
    unfolding generateHorizontalEdge_f64_def by (simp add: Let_def del: upt_Suc)
qed

lemma nth_vertical_f64:
  assumes "i \<le> n"
  shows "generateVerticalEdge_f64 X y1 y2 m a n ! i
         = (fl (X + splitOffset_f64 (fl (real i / real n)) m a),
            fl (y1 + fl (fl (y2 - y1) * fl (real i / real n))))"
proof -
  have "i < length [0..<n + 1]" using assms by simp
  then show ?thesis
    unfolding generateVerticalEdge_f64_def by (simp add: Let_def del: upt_Suc)
qed

lemma splitOffset_f64_straight [simp]: "splitOffset_f64 t ''straight'' a = 0"
  by (simp add: splitOffset_f64_def)

text \<open>The corners and the amplitude of the initial grid are computed without rounding error.\<close>

lemma initial_corners_f64:
  "xLeft_f64 0 initialPuzzleParams = - 50"
  "xRight_f64 0 initialPuzzleParams = 0"
  "xLeft_f64 1 initialPuzzleParams = 0"
  "yBottom_f64 0 initialPuzzleParams = - 50"
  "yTop_f64 0 initialPuzzleParams = 0"
  "yBottom_f64 1 initialPuzzleParams = 0"
  by (simp_all add: xLeft_f64_def xRight_f64_def yBottom_f64_def yTop_f64_def
        pieceW_f64_def pieceH_f64_def initialPuzzleParams_def fl_50 fl_m50)

lemma initial_corners_mode_f64:
  "xLeft_f64 c (initialPuzzleParams\<lparr>splitMode := m\<rparr>) = xLeft_f64 c initialPuzzleParams"
  "xRight_f64 c (initialPuzzleParams\<lparr>splitMode := m\<rparr>) = xRight_f64 c initialPuzzleParams"
  "yBottom_f64 r (initialPuzzleParams\<lparr>splitMode := m\<rparr>) = yBottom_f64 r initialPuzzleParams"
  "yTop_f64 r (initialPuzzleParams\<lparr>splitMode := m\<rparr>) = yTop_f64 r initialPuzzleParams"
  by (simp_all add: xLeft_f64_def xRight_f64_def yBottom_f64_def yTop_f64_def
        pieceW_f64_def pieceH_f64_def)

lemma initial_amplitude_f64: "amplitudeOf_f64 (initialPuzzleParams\<lparr>splitMode := m\<rparr>) = 4"
  by (simp add: amplitudeOf_f64_def pieceW_f64_def pieceH_f64_def initialPuzzleParams_def
        fl_50 fl_008 fl_amp)

text \<open>
  The straight horizontal line between pieces \<open>(0, 0)\<close> and \<open>(0, 1)\<close>: the piece below walks
  it from \<open>x = 0\<close> to \<open>x = -50\<close>, the piece above from \<open>x = -50\<close> to \<open>x = 0\<close>. One third of the
  way from the left the first computes \<open>fl (0 + fl (-50 * fl (2/3)))\<close>, the second
  \<open>fl (-50 + fl (50 * fl (1/3)))\<close>.
\<close>

lemma straight_top_20:
  "topPts_f64 0 0 initialPuzzleParams ! 20 = (- (2345624805922133 / 70368744177664), 0)"
  unfolding topPts_f64_def initial_corners_f64
  by (subst nth_horizontal_f64)
     (simp_all add: initialPuzzleParams_def fl_m50 fl_t20 fl_top20 fl_top20_id)

lemma straight_bottom_10:
  "bottomPts_f64 0 1 initialPuzzleParams ! 10 = (- (4691249611844267 / 140737488355328), 0)"
  unfolding bottomPts_f64_def initial_corners_f64
  by (subst nth_horizontal_f64)
     (simp_all add: initialPuzzleParams_def fl_50 fl_t10 fl_bot10a fl_bot10)

lemma straight_left_20:
  "leftPts_f64 1 0 initialPuzzleParams ! 20 = (0, - (2345624805922133 / 70368744177664))"
  unfolding leftPts_f64_def initial_corners_f64
  by (subst nth_vertical_f64)
     (simp_all add: initialPuzzleParams_def fl_m50 fl_t20 fl_top20 fl_top20_id)

lemma straight_right_10:
  "rightPts_f64 0 0 initialPuzzleParams ! 10 = (0, - (4691249611844267 / 140737488355328))"
  unfolding rightPts_f64_def initial_corners_f64
  by (subst nth_vertical_f64)
     (simp_all add: initialPuzzleParams_def fl_50 fl_t10 fl_bot10a fl_bot10)

lemma rev_nth_31:
  assumes "length xs = 31" "i \<le> 30"
  shows "rev xs ! i = xs ! (30 - i)"
  using assms by (simp add: rev_nth)

text \<open>
  The zigzag offset at the second sample, \<open>t = fl (1/30)\<close>, and at its mirror image
  \<open>fl (1 - t)\<close>, which is also the double \<open>fl (29/30)\<close> of the last but one sample, with the
  amplitude \<open>4\<close> of the initial grid.
\<close>

lemma zigzag_near_one:
  "splitOffset_f64 (8706959279582959 / 9007199254740992) ''zigzag'' 4
   = 18764998447377 / 140737488355328"
  by (simp add: splitOffset_f64_def Let_def js_rem_def fl_zA fl_zE fl_zB fl_zC fl_2 fl_zR)

lemma zigzag_near_zero:
  "splitOffset_f64 (4803839602528529 / 144115188075855872) ''zigzag'' 4
   = 300239975158033 / 2251799813685248"
  by (simp add: splitOffset_f64_def Let_def js_rem_def fl_yA fl_yB fl_yC fl_2 fl_yR)

lemma zigzag_top_29:
  "topPts_f64 0 0 (initialPuzzleParams\<lparr>splitMode := ''zigzag''\<rparr>) ! 29
   = (- (6802311937174187 / 140737488355328), 18764998447377 / 140737488355328)"
  unfolding topPts_f64_def initial_corners_mode_f64 initial_corners_f64 initial_amplitude_f64
  by (subst nth_horizontal_f64)
     (simp_all add: fl_m50 fl_t29 fl_top29 fl_top29_id zigzag_near_one fl_zR)

lemma zigzag_bottom_1:
  "bottomPts_f64 0 1 (initialPuzzleParams\<lparr>splitMode := ''zigzag''\<rparr>) ! 1
   = (- (6802311937174187 / 140737488355328), 300239975158033 / 2251799813685248)"
  unfolding bottomPts_f64_def initial_corners_mode_f64 initial_corners_f64 initial_amplitude_f64
  by (subst nth_horizontal_f64)
     (simp_all add: fl_50 fl_t1 fl_bot1a fl_bot1 zigzag_near_zero fl_yR)

section \<open>Rounding error of the edge generators\<close>

text \<open>
  How far the doubles of the edge generators can lie from the values their formulas have in
  exact arithmetic: every coordinate of every sampled point is within 178 units of
  \<open>width / 2 ^ 53\<close> (for \<open>x\<close>) or \<open>height / 2 ^ 53\<close> (for \<open>y\<close>) of the exact one.
\<close>

text \<open>
  A rounding moves a value by at most one part in \<open>2 ^ 53\<close> of its magnitude, or by
  \<open>2 ^ -1075\<close> among the smallest numbers.
\<close>

lemma rne_err: "abs (of_int (rne y) - y) \<le> 1 / 2"
proof -
  have a: "of_int \<lfloor>y\<rfloor> \<le> y" "y < of_int \<lfloor>y\<rfloor> + 1" by linarith+
  show ?thesis unfolding rne_def Let_def using a by (simp add: abs_le_iff)
qed

lemma fl_err: "abs (fl x - x) \<le> abs x / 2 ^ 53 + 1 / 2 ^ 1075"
proof (cases "x = 0")
  case True
  then show ?thesis by simp
next
  case False
  define e where "e = max (\<lfloor>log 2 \<bar>x\<bar>\<rfloor> - 52) (- 1074)"
  define p :: real where "p = 2 powr of_int e"
  have p0: "0 < p" by (simp add: p_def)
  have f: "fl x = of_int (rne (x / p)) * p"
    using False by (simp add: fl_def Let_def e_def p_def)
  have "fl x - x = (of_int (rne (x / p)) - x / p) * p"
    unfolding f using p0 by (simp add: algebra_simps)
  then have "abs (fl x - x) = abs (of_int (rne (x / p)) - x / p) * p"
    using p0 by (simp add: abs_mult)
  also have "\<dots> \<le> 1 / 2 * p"
    using rne_err[of "x / p"] p0 by (intro mult_right_mono) simp_all
  finally have h: "abs (fl x - x) \<le> p / 2" by simp
  have ax: "0 < \<bar>x\<bar>" using False by simp
  have l: "of_int \<lfloor>log 2 \<bar>x\<bar>\<rfloor> \<le> log 2 \<bar>x\<bar>" by linarith
  have "(2::real) powr of_int (\<lfloor>log 2 \<bar>x\<bar>\<rfloor> - 52) = 2 powr (of_int \<lfloor>log 2 \<bar>x\<bar>\<rfloor> - 52)"
    by simp
  also have "\<dots> = 2 powr of_int \<lfloor>log 2 \<bar>x\<bar>\<rfloor> / 2 powr 52"
    by (rule powr_diff)
  also have "\<dots> \<le> 2 powr log 2 \<bar>x\<bar> / 2 powr 52"
    using l by (intro divide_right_mono) simp_all
  also have "\<dots> = \<bar>x\<bar> / 2 ^ 52"
    using ax powr_realpow[of 2 52] by simp
  finally have c1: "2 powr of_int (\<lfloor>log 2 \<bar>x\<bar>\<rfloor> - 52) \<le> \<bar>x\<bar> / 2 ^ 52" .
  have c2: "2 powr of_int (- 1074) = 1 / (2::real) ^ 1074"
    using pow2_neg[of 1074] by simp
  have "p \<le> \<bar>x\<bar> / 2 ^ 52 + 1 / 2 ^ 1074"
  proof (cases "e = - 1074")
    case True
    then show ?thesis unfolding p_def using c2 ax by simp
  next
    case False
    then have "e = \<lfloor>log 2 \<bar>x\<bar>\<rfloor> - 52" unfolding e_def by linarith
    then show ?thesis unfolding p_def using c1 by simp
  qed
  then show ?thesis using h by simp
qed

lemma fl_nonneg: "0 \<le> x \<Longrightarrow> 0 \<le> fl x"
proof -
  assume x: "0 \<le> x"
  have r: "0 \<le> rne y" if "0 \<le> y" for y
  proof -
    have "0 \<le> \<lfloor>y\<rfloor>" using that by simp
    then show ?thesis unfolding rne_def Let_def by simp
  qed
  show ?thesis
  proof (cases "x = 0")
    case True then show ?thesis by simp
  next
    case False
    then show ?thesis unfolding fl_def Let_def using x
      by (simp add: r)
  qed
qed

lemma tiny_le_unit:
  assumes "1 / 2 ^ 900 \<le> (M::real)"
  shows "2 ^ 53 * (1 / 2 ^ 1075) \<le> M / 2 ^ 53 / 2"
proof -
  have "(2::real) ^ 53 * (1 / 2 ^ 1075) \<le> 1 / 2 ^ 900 / 2 ^ 53 / 2" by simp
  also have "\<dots> \<le> M / 2 ^ 53 / 2" using assms by (intro divide_right_mono) simp_all
  finally show ?thesis .
qed

lemma tiny_le:
  assumes "1 / 2 ^ 1000 \<le> (M::real)"
  shows "1 / 2 ^ 1075 \<le> M / 2 ^ 53 / 2"
proof -
  have "(1::real) / 2 ^ 1075 \<le> 1 / 2 ^ 1000 / 2 ^ 53 / 2" by simp
  also have "\<dots> \<le> M / 2 ^ 53 / 2" using assms by (intro divide_right_mono) simp_all
  finally show ?thesis .
qed

text \<open>
  Errors are counted in units of \<open>M / 2 ^ 53\<close>, where \<open>M\<close> is the size of the board along the
  axis in question: rounding a value that lies within \<open>k\<close> units of an exact value of
  magnitude at most \<open>2 * M\<close> gives a value within \<open>k + 3\<close> units of it.
\<close>

lemma fl_near:
  assumes M: "1 / 2 ^ 1000 \<le> M" and b: "abs b \<le> 2 * M"
    and ab: "abs (a - b) \<le> k * (M / 2 ^ 53)" and k: "k \<le> 1000"
  shows "abs (fl a - b) \<le> (k + 3) * (M / 2 ^ 53)"
proof -
  define U where "U = M / 2 ^ 53"
  have M0: "0 < M" using M by (rule less_le_trans[rotated]) simp
  have U0: "0 \<le> U" using M0 by (simp add: U_def)
  have t: "1 / 2 ^ 1075 \<le> U / 2" using tiny_le[OF M] by (simp add: U_def)
  have "k * U \<le> 1000 * U" using k U0 by (rule mult_right_mono)
  moreover have "1000 * U \<le> M / 2" unfolding U_def using M0 by simp
  ultimately have "abs a \<le> 5 / 2 * M" using b ab unfolding U_def[symmetric] by linarith
  then have "abs a / 2 ^ 53 \<le> 5 / 2 * M / 2 ^ 53" by (intro divide_right_mono) simp_all
  then have "abs a / 2 ^ 53 \<le> 5 / 2 * U" by (simp add: U_def)
  then have "abs (fl a - a) \<le> 3 * U" using fl_err[of a] t by linarith
  then have "abs (fl a - b) \<le> 3 * U + k * U" using ab unfolding U_def[symmetric] by linarith
  then show ?thesis unfolding U_def by (simp add: algebra_simps)
qed

lemma range_weaken: "1 / 2 ^ 900 \<le> (M::real) \<Longrightarrow> 1 / 2 ^ 1000 \<le> M"
proof -
  assume a: "1 / 2 ^ 900 \<le> M"
  have "(1::real) / 2 ^ 1000 \<le> 1 / 2 ^ 900" by simp
  then show ?thesis using a by (rule order_trans)
qed

text \<open>The corners of a cell.\<close>

lemma near_add:
  assumes "abs (a - a') \<le> k * (U::real)" "abs (b - b') \<le> l * U"
  shows "abs (a + b - (a' + b')) \<le> (k + l) * U"
proof -
  have "(k + l) * U = k * U + l * U" by (rule distrib_right)
  then show ?thesis using assms by linarith
qed

lemma near_diff:
  assumes "abs (a - a') \<le> k * (U::real)" "abs (b - b') \<le> l * U"
  shows "abs (a - b - (a' - b')) \<le> (k + l) * U"
proof -
  have "(k + l) * U = k * U + l * U" by (rule distrib_right)
  then show ?thesis using assms by linarith
qed

lemma near_neg:
  assumes "abs (a - a') \<le> k * (U::real)"
  shows "abs (- a - (- a')) \<le> k * U"
  using assms by linarith

lemma scaled_near:
  assumes w: "1 / 2 ^ 900 \<le> w" and g: "1 \<le> g" "g \<le> 2 ^ 53" and k: "0 \<le> k" "k \<le> g"
  shows "abs (of_int k * fl (w / of_int g) - of_int k * (w / of_int g)) \<le> 2 * (w / 2 ^ 53)"
proof -
  define U where "U = w / 2 ^ 53"
  define q where "q = w / of_int g"
  have w0: "0 < w" using w by (rule less_le_trans[rotated]) simp
  have g0: "(0::real) < of_int g" using g by simp
  have q0: "0 \<le> q" using w0 g0 by (simp add: q_def)
  have kr: "(0::real) \<le> of_int k" using k by simp
  have kg: "(of_int k :: real) \<le> of_int g" using k by simp
  have k53: "(of_int k :: real) \<le> 2 ^ 53"
  proof -
    have "k \<le> 2 ^ 53" using k g by linarith
    then have "(of_int k :: real) \<le> of_int (2 ^ 53)" by (rule of_int_le_iff[THEN iffD2])
    then show ?thesis by simp
  qed
  have e: "abs (fl q - q) \<le> q / 2 ^ 53 + 1 / 2 ^ 1075" using fl_err[of q] q0 by simp
  have "abs (of_int k * fl q - of_int k * q) = of_int k * abs (fl q - q)"
    using kr by (simp add: abs_mult right_diff_distrib[symmetric])
  also have "\<dots> \<le> of_int k * (q / 2 ^ 53 + 1 / 2 ^ 1075)"
    using e kr by (rule mult_left_mono)
  also have "\<dots> = of_int k * q / 2 ^ 53 + of_int k * (1 / 2 ^ 1075)"
    by (simp add: algebra_simps)
  finally have m: "abs (of_int k * fl q - of_int k * q)
                   \<le> of_int k * q / 2 ^ 53 + of_int k * (1 / 2 ^ 1075)" .
  have "of_int k * q \<le> of_int g * q" using kg q0 by (rule mult_right_mono)
  also have "\<dots> = w" using g0 by (simp add: q_def)
  finally have "of_int k * q / 2 ^ 53 \<le> w / 2 ^ 53" by (intro divide_right_mono) simp_all
  then have a: "of_int k * q / 2 ^ 53 \<le> U" by (simp add: U_def)
  have "of_int k * (1 / 2 ^ 1075) \<le> (2::real) ^ 53 * (1 / 2 ^ 1075)"
    using k53 by (intro mult_right_mono) simp_all
  then have b: "of_int k * (1 / 2 ^ 1075) \<le> U / 2"
    using tiny_le_unit[OF w] unfolding U_def by linarith
  have U0: "0 \<le> U" using w0 by (simp add: U_def)
  show ?thesis using m a b U0 unfolding U_def[symmetric] q_def[symmetric] by linarith
qed

lemma exact_corner_bound:
  assumes w: "0 \<le> (w::real)" and g: "1 \<le> g" and k: "0 \<le> k" "k \<le> g"
  shows "abs (- (w / 2) + of_int k * (w / of_int g)) \<le> w / 2"
    and "0 \<le> of_int k * (w / of_int g)" and "of_int k * (w / of_int g) \<le> w"
proof -
  define q where "q = w / of_int g"
  have g0: "(0::real) < of_int g" using g by simp
  have q0: "0 \<le> q" using w g0 by (simp add: q_def)
  have kr: "(0::real) \<le> of_int k" using k by simp
  have kg: "(of_int k :: real) \<le> of_int g" using k by simp
  have "of_int k * q \<le> of_int g * q" using kg q0 by (rule mult_right_mono)
  also have "\<dots> = w" using g0 by (simp add: q_def)
  finally have u: "of_int k * q \<le> w" .
  have l: "0 \<le> of_int k * q" using kr q0 by simp
  show "abs (- (w / 2) + of_int k * (w / of_int g)) \<le> w / 2"
    using u l unfolding q_def[symmetric] by linarith
  show "0 \<le> of_int k * (w / of_int g)" using l by (simp add: q_def)
  show "of_int k * (w / of_int g) \<le> w" using u by (simp add: q_def)
qed

lemma corner_near:
  assumes w: "1 / 2 ^ 900 \<le> w" and g: "1 \<le> g" "g \<le> 2 ^ 53" and k: "0 \<le> k" "k \<le> g"
  shows "abs (fl (- fl (w / 2) + fl (of_int k * fl (w / of_int g)))
              - (- (w / 2) + of_int k * (w / of_int g))) \<le> 11 * (w / 2 ^ 53)"
proof -
  define U where "U = w / 2 ^ 53"
  have w0: "0 < w" using w by (rule less_le_trans[rotated]) simp
  have w0': "0 \<le> w" using w0 by simp
  have h: "abs (fl (w / 2) - w / 2) \<le> (0 + 3) * (w / 2 ^ 53)"
    using w0 by (intro fl_near[OF range_weaken[OF w]]) simp_all
  have "abs (of_int k * (w / of_int g)) = of_int k * (w / of_int g)"
    by (rule abs_of_nonneg[OF exact_corner_bound(2)[OF w0' g(1) k]])
  then have "abs (of_int k * (w / of_int g)) \<le> w"
    using exact_corner_bound(3)[OF w0' g(1) k] by simp
  moreover have "w \<le> 2 * w" using w0 by simp
  ultimately have b2: "abs (of_int k * (w / of_int g)) \<le> 2 * w" by (rule order_trans)
  have q: "abs (fl (of_int k * fl (w / of_int g)) - of_int k * (w / of_int g))
           \<le> (2 + 3) * (w / 2 ^ 53)"
    by (rule fl_near[OF range_weaken[OF w] b2 scaled_near[OF w g k]]) simp
  have "abs ((- fl (w / 2) + fl (of_int k * fl (w / of_int g)))
             - (- (w / 2) + of_int k * (w / of_int g))) \<le> 8 * (w / 2 ^ 53)"
    using near_add[OF near_neg[OF h] q] by simp
  moreover have "abs (- (w / 2) + of_int k * (w / of_int g)) \<le> 2 * w"
  proof -
    have "w / 2 \<le> 2 * w" using w0 by simp
    with exact_corner_bound(1)[OF w0' g(1) k] show ?thesis by (rule order_trans)
  qed
  ultimately have "abs (fl (- fl (w / 2) + fl (of_int k * fl (w / of_int g)))
              - (- (w / 2) + of_int k * (w / of_int g))) \<le> (8 + 3) * (w / 2 ^ 53)"
    by (intro fl_near[OF range_weaken[OF w]]) simp_all
  then show ?thesis by simp
qed

lemma size_near:
  assumes w: "1 / 2 ^ 900 \<le> w" and g: "1 \<le> g"
  shows "abs (fl (w / of_int g) - w / of_int g) \<le> 2 * (w / 2 ^ 53)"
proof -
  have w0: "0 < w" using w by (rule less_le_trans[rotated]) simp
  have g1: "(1::real) \<le> of_int g" using g by simp
  have q0: "0 \<le> w / of_int g" using w0 g1 by simp
  have "w / of_int g \<le> w / 1" using g1 w0 by (intro divide_left_mono) simp_all
  then have qw: "w / of_int g \<le> w" by simp
  define q where "q = w / of_int g"
  define U where "U = w / 2 ^ 53"
  have a: "q / 2 ^ 53 \<le> U"
    unfolding q_def U_def using qw by (intro divide_right_mono) simp_all
  have b: "1 / 2 ^ 1075 \<le> U / 2"
  proof -
    have "1 / 2 ^ 1075 \<le> (2::real) ^ 53 * (1 / 2 ^ 1075)" by simp
    then show ?thesis using tiny_le_unit[OF w] unfolding U_def by linarith
  qed
  have U0: "0 \<le> U" using w0 by (simp add: U_def)
  have "0 \<le> q" unfolding q_def by (rule q0)
  then have "abs q = q" by (rule abs_of_nonneg)
  then have "abs (fl q - q) \<le> q / 2 ^ 53 + 1 / 2 ^ 1075" using fl_err[of q] by simp
  then have "abs (fl q - q) \<le> 2 * U" using a b U0 by linarith
  then show ?thesis unfolding q_def U_def .
qed

lemma next_corner_near:
  assumes w: "1 / 2 ^ 900 \<le> w" and g: "1 \<le> g" "g \<le> 2 ^ 53" and k: "0 \<le> k" "k + 1 \<le> g"
  shows "abs (fl (fl (- fl (w / 2) + fl (of_int k * fl (w / of_int g))) + fl (w / of_int g))
              - (- (w / 2) + of_int k * (w / of_int g) + w / of_int g)) \<le> 16 * (w / 2 ^ 53)"
proof -
  have w0: "0 < w" using w by (rule less_le_trans[rotated]) simp
  have w0': "0 \<le> w" using w0 by simp
  have k': "0 \<le> k + 1" "k \<le> g" using k by simp_all
  have c: "abs (fl (- fl (w / 2) + fl (of_int k * fl (w / of_int g)))
              - (- (w / 2) + of_int k * (w / of_int g))) \<le> 11 * (w / 2 ^ 53)"
    by (rule corner_near[OF w g k(1) k'(2)])
  have s: "abs (fl (w / of_int g) - w / of_int g) \<le> 2 * (w / 2 ^ 53)"
    by (rule size_near[OF w g(1)])
  have "of_int (k + 1) * (w / of_int g) = of_int k * (w / of_int g) + w / of_int g"
    by (simp add: distrib_right add_divide_distrib)
  then have e: "- (w / 2) + of_int k * (w / of_int g) + w / of_int g
           = - (w / 2) + of_int (k + 1) * (w / of_int g)" by linarith
  have "w / 2 \<le> 2 * w" using w0 by simp
  with exact_corner_bound(1)[OF w0' g(1) k'(1) k(2)]
  have "abs (- (w / 2) + of_int k * (w / of_int g) + w / of_int g) \<le> 2 * w"
    unfolding e by (rule order_trans)
  moreover have "abs ((fl (- fl (w / 2) + fl (of_int k * fl (w / of_int g))) + fl (w / of_int g))
              - (- (w / 2) + of_int k * (w / of_int g) + w / of_int g)) \<le> 13 * (w / 2 ^ 53)"
    using near_add[OF c s] by simp
  ultimately have "abs (fl (fl (- fl (w / 2) + fl (of_int k * fl (w / of_int g))) + fl (w / of_int g))
              - (- (w / 2) + of_int k * (w / of_int g) + w / of_int g)) \<le> (13 + 3) * (w / 2 ^ 53)"
    by (intro fl_near[OF range_weaken[OF w]]) simp_all
  then show ?thesis by simp
qed

text \<open>The parameter \<open>i / segments\<close> and the interpolation between the two ends of a side.\<close>

lemma param_near:
  assumes "j \<le> n" "0 < n"
  shows "abs (fl (real j / real n) - real j / real n) \<le> 2 / 2 ^ 53"
    and "0 \<le> real j / real n" and "real j / real n \<le> 1"
    and "0 \<le> fl (real j / real n)"
proof -
  define s where "s = real j / real n"
  have s0: "0 \<le> s" by (simp add: s_def)
  have s1: "s \<le> 1" using assms by (simp add: s_def)
  have "abs s / 2 ^ 53 \<le> 1 / 2 ^ 53" using s0 s1 by (intro divide_right_mono) simp_all
  moreover have "(1::real) / 2 ^ 1075 \<le> 1 / 2 ^ 53" by simp
  ultimately have "abs (fl s - s) \<le> 1 / 2 ^ 53 + 1 / 2 ^ 53" using fl_err[of s] by linarith
  then show "abs (fl (real j / real n) - real j / real n) \<le> 2 / 2 ^ 53"
    unfolding s_def by simp
  show "0 \<le> real j / real n" using s0 by (simp add: s_def)
  show "real j / real n \<le> 1" using s1 by (simp add: s_def)
  show "0 \<le> fl (real j / real n)" using s0 unfolding s_def by (rule fl_nonneg)
qed

lemma product_near:
  assumes U: "U = M / 2 ^ 53" and M: "0 < (M::real)"
    and d: "abs (d - D) \<le> k * U" and k: "0 \<le> k" "k \<le> 1000"
    and D: "abs D \<le> M"
    and t: "abs (t - s) \<le> e / 2 ^ 53" and e: "0 \<le> e" "e \<le> 1000"
    and s: "abs s \<le> 1"
  shows "abs (d * t - D * s) \<le> (k + e + 1) * U"
proof -
  have U0: "0 \<le> U" using M by (simp add: U)
  have "e / 2 ^ 53 \<le> 1000 / (2::real) ^ 53" using e by (intro divide_right_mono) simp_all
  then have "abs t \<le> 1 + 1000 / 2 ^ 53" using t s by linarith
  moreover have "0 \<le> k * U" using k U0 by simp
  ultimately have "abs (d - D) * abs t \<le> k * U * (1 + 1000 / 2 ^ 53)"
    using d by (intro mult_mono) simp_all
  moreover have "k * U * (1 + 1000 / 2 ^ 53) = k * U + k * (1000 / 2 ^ 53) * U"
    by (simp add: algebra_simps)
  moreover have "k * (1000 / 2 ^ 53) * U \<le> 1 * U"
  proof (rule mult_right_mono[OF _ U0])
    have "k * (1000 / 2 ^ 53) \<le> 1000 * (1000 / (2::real) ^ 53)"
      using k by (intro mult_right_mono) simp_all
    also have "\<dots> \<le> 1" by simp
    finally show "k * (1000 / 2 ^ 53) \<le> 1" .
  qed
  moreover have "abs ((d - D) * t) = abs (d - D) * abs t" by (rule abs_mult)
  ultimately have a: "abs ((d - D) * t) \<le> k * U + U" by linarith
  have "abs D * abs (t - s) \<le> M * (e / 2 ^ 53)"
    using D t M by (intro mult_mono) simp_all
  moreover have "M * (e / 2 ^ 53) = e * U" unfolding U by simp
  moreover have "abs (D * (t - s)) = abs D * abs (t - s)" by (rule abs_mult)
  ultimately have b: "abs (D * (t - s)) \<le> e * U" by linarith
  have "d * t - D * s = (d - D) * t + D * (t - s)" by (simp add: algebra_simps)
  then have "abs (d * t - D * s) \<le> abs ((d - D) * t) + abs (D * (t - s))" by simp
  then have "abs (d * t - D * s) \<le> k * U + U + e * U" using a b by linarith
  moreover have "(k + e + 1) * U = k * U + U + e * U" by (simp add: algebra_simps)
  ultimately show ?thesis by simp
qed

lemma lerp_near:
  assumes M: "1 / 2 ^ 1000 \<le> M"
    and a: "abs (a - a') \<le> 16 * (M / 2 ^ 53)" and b: "abs (b - b') \<le> 16 * (M / 2 ^ 53)"
    and a': "abs a' \<le> M / 2" and b': "abs b' \<le> M / 2"
    and t: "abs (t - s) \<le> 2 / 2 ^ 53" and s: "0 \<le> s" "s \<le> 1"
  shows "abs (fl (a + fl (fl (b - a) * t)) - (a' + (b' - a') * s)) \<le> 60 * (M / 2 ^ 53)"
proof -
  define U where "U = M / 2 ^ 53"
  define D where "D = b' - a'"
  define d where "d = fl (b - a)"
  have M0: "0 < M" using M by (rule less_le_trans[rotated]) simp
  have DM: "abs D \<le> M" using a' b' unfolding D_def by linarith
  have D2: "abs D \<le> 2 * M" using DM M0 by linarith
  have "abs (b - a - D) \<le> (16 + 16) * (M / 2 ^ 53)"
    unfolding D_def by (rule near_diff[OF b a])
  then have "abs (d - D) \<le> (16 + 16 + 3) * (M / 2 ^ 53)"
    unfolding d_def by (intro fl_near[OF M D2]) simp_all
  then have dn: "abs (d - D) \<le> 35 * U" by (simp add: U_def)
  have sa: "abs s \<le> 1" using s by simp
  have "abs (d * t - D * s) \<le> (35 + 2 + 1) * U"
    by (rule product_near[OF U_def M0 dn _ _ DM t _ _ sa]) simp_all
  then have pn: "abs (d * t - D * s) \<le> 38 * (M / 2 ^ 53)" by (simp add: U_def)
  have "abs (D * s) \<le> M * 1"
    unfolding abs_mult using DM sa by (intro mult_mono) simp_all
  then have Ds: "abs (D * s) \<le> M" by simp
  then have Ds2: "abs (D * s) \<le> 2 * M" using M0 by linarith
  have p: "abs (fl (d * t) - D * s) \<le> (38 + 3) * (M / 2 ^ 53)"
    by (rule fl_near[OF M Ds2 pn]) simp
  have "abs (a + fl (d * t) - (a' + D * s)) \<le> (16 + (38 + 3)) * (M / 2 ^ 53)"
    by (rule near_add[OF a p])
  then have q: "abs (a + fl (d * t) - (a' + D * s)) \<le> 57 * (M / 2 ^ 53)" by simp
  have "abs (a' + D * s) \<le> 2 * M" using a' Ds M0 by linarith
  then have "abs (fl (a + fl (d * t)) - (a' + D * s)) \<le> (57 + 3) * (M / 2 ^ 53)"
    by (rule fl_near[OF M _ q]) simp
  then show ?thesis unfolding d_def D_def by simp
qed

text \<open>
  The sine and the triangular wave of the zigzag change by at most the change of their
  argument, and by at most twice that, respectively.
\<close>

lemma sin_lipschitz: "abs (sin x - sin y) \<le> abs (x - (y::real))"
proof -
  have "sin x - sin y = 2 * sin ((x - y) / 2) * cos ((x + y) / 2)"
    by (rule sin_diff_sin)
  then have "abs (sin x - sin y) = 2 * abs (sin ((x - y) / 2)) * abs (cos ((x + y) / 2))"
    by (simp add: abs_mult)
  also have "\<dots> \<le> 2 * abs ((x - y) / 2) * 1"
    by (intro mult_mono abs_sin_x_le_abs_x) simp_all
  finally show ?thesis by simp
qed

lemma triangle_nearest:
  assumes x: "0 \<le> x"
  shows "(if js_rem x 1 < 1 / 2 then js_rem x 1 * 2 else (1 - js_rem x 1) * 2)
         \<le> 2 * abs (x - of_int n)"
proof -
  define fx where "fx = (of_int \<lfloor>x\<rfloor> :: real)"
  define m where "m = (of_int n :: real)"
  have f: "js_rem x 1 = x - fx" unfolding fx_def by (rule js_rem_one[OF x])
  have r: "fx \<le> x" "x < fx + 1" unfolding fx_def by linarith+
  have c: "m \<le> fx \<or> fx + 1 \<le> m"
  proof (cases "n \<le> \<lfloor>x\<rfloor>")
    case True
    then show ?thesis unfolding m_def fx_def by simp
  next
    case False
    then have "\<lfloor>x\<rfloor> + 1 \<le> n" by simp
    then have "(of_int (\<lfloor>x\<rfloor> + 1) :: real) \<le> of_int n" by (rule of_int_le_iff[THEN iffD2])
    then show ?thesis unfolding m_def fx_def by simp
  qed
  show ?thesis unfolding f m_def[symmetric]
  proof (cases "x - fx < 1 / 2")
    case True
    have "x - fx \<le> abs (x - m)" using c
    proof
      assume "m \<le> fx" then show ?thesis using r by linarith
    next
      assume "fx + 1 \<le> m" then show ?thesis using r True by linarith
    qed
    then have "(x - fx) * 2 \<le> 2 * abs (x - m)" by simp
    then show "(if x - fx < 1 / 2 then (x - fx) * 2 else (1 - (x - fx)) * 2) \<le> 2 * abs (x - m)"
      using True by (simp only: if_True)
  next
    case False
    have "1 - (x - fx) \<le> abs (x - m)" using c
    proof
      assume "m \<le> fx" then show ?thesis using r False by linarith
    next
      assume "fx + 1 \<le> m" then show ?thesis using r by linarith
    qed
    then have "(1 - (x - fx)) * 2 \<le> 2 * abs (x - m)" by simp
    then show "(if x - fx < 1 / 2 then (x - fx) * 2 else (1 - (x - fx)) * 2) \<le> 2 * abs (x - m)"
      using False by (simp only: if_False)
  qed
qed

lemma triangle_attained:
  assumes x: "0 \<le> x"
  shows "\<exists>m. (if js_rem x 1 < 1 / 2 then js_rem x 1 * 2 else (1 - js_rem x 1) * 2)
             = 2 * abs (x - of_int m)"
proof -
  define fx where "fx = (of_int \<lfloor>x\<rfloor> :: real)"
  have f: "js_rem x 1 = x - fx" unfolding fx_def by (rule js_rem_one[OF x])
  have r: "fx \<le> x" "x < fx + 1" unfolding fx_def by linarith+
  have e: "(of_int (\<lfloor>x\<rfloor> + 1) :: real) = fx + 1" by (simp add: fx_def)
  show ?thesis
  proof (cases "x - fx < 1 / 2")
    case True
    have "x - fx = abs (x - fx)" using r by linarith
    then have "(x - fx) * 2 = 2 * abs (x - fx)" by simp
    then have "(if x - fx < 1 / 2 then (x - fx) * 2 else (1 - (x - fx)) * 2)
               = 2 * abs (x - fx)" using True by (simp only: if_True)
    then show ?thesis unfolding f fx_def by (rule exI)
  next
    case False
    have "1 - (x - fx) = abs (x - (fx + 1))" using r by linarith
    then have "(1 - (x - fx)) * 2 = 2 * abs (x - (fx + 1))" by simp
    then have "(if x - fx < 1 / 2 then (x - fx) * 2 else (1 - (x - fx)) * 2)
               = 2 * abs (x - (fx + 1))" using False by (simp only: if_False)
    then have "(if x - fx < 1 / 2 then (x - fx) * 2 else (1 - (x - fx)) * 2)
               = 2 * abs (x - of_int (\<lfloor>x\<rfloor> + 1))" unfolding e .
    then show ?thesis unfolding f fx_def by (rule exI)
  qed
qed

lemma triangle_lipschitz_one:
  assumes x: "0 \<le> x" and y: "0 \<le> y"
  shows "(if js_rem x 1 < 1 / 2 then js_rem x 1 * 2 else (1 - js_rem x 1) * 2)
         \<le> (if js_rem y 1 < 1 / 2 then js_rem y 1 * 2 else (1 - js_rem y 1) * 2)
           + 2 * abs (x - y)"
proof -
  obtain n where n: "(if js_rem y 1 < 1 / 2 then js_rem y 1 * 2 else (1 - js_rem y 1) * 2)
             = 2 * abs (y - of_int n)" using triangle_attained[OF y] by blast
  have tri: "2 * abs (x - m) \<le> 2 * abs (y - m) + 2 * abs (x - y)" for m :: real
  proof -
    have "abs (x - m) \<le> abs (y - m) + abs (x - y)" by linarith
    then show ?thesis by simp
  qed
  have "(if js_rem x 1 < 1 / 2 then js_rem x 1 * 2 else (1 - js_rem x 1) * 2)
        \<le> 2 * abs (x - of_int n)" by (rule triangle_nearest[OF x])
  also have "\<dots> \<le> 2 * abs (y - of_int n) + 2 * abs (x - y)" by (rule tri)
  finally show ?thesis unfolding n .
qed

lemma triangle_lipschitz:
  assumes x: "0 \<le> x" and y: "0 \<le> y"
  shows "abs ((if js_rem x 1 < 1 / 2 then js_rem x 1 * 2 else (1 - js_rem x 1) * 2)
              - (if js_rem y 1 < 1 / 2 then js_rem y 1 * 2 else (1 - js_rem y 1) * 2))
         \<le> 2 * abs (x - y)"
proof -
  define p where "p = (if js_rem x 1 < 1 / 2 then js_rem x 1 * 2 else (1 - js_rem x 1) * 2)"
  define q where "q = (if js_rem y 1 < 1 / 2 then js_rem y 1 * 2 else (1 - js_rem y 1) * 2)"
  have "p \<le> q + 2 * abs (x - y)" unfolding p_def q_def by (rule triangle_lipschitz_one[OF x y])
  moreover have "q \<le> p + 2 * abs (y - x)"
    unfolding p_def q_def by (rule triangle_lipschitz_one[OF y x])
  moreover have "abs (y - x) = abs (x - y)" by (rule abs_minus_commute)
  ultimately show ?thesis unfolding p_def[symmetric] q_def[symmetric]
    by (simp add: abs_le_iff)
qed

lemma triangle_range:
  assumes x: "0 \<le> x"
  shows "0 \<le> (if js_rem x 1 < 1 / 2 then js_rem x 1 * 2 else (1 - js_rem x 1) * 2)"
    and "(if js_rem x 1 < 1 / 2 then js_rem x 1 * 2 else (1 - js_rem x 1) * 2) \<le> 1"
  using js_rem_one_range[OF x] by (simp_all split: if_splits)

text \<open>The offsets.\<close>

lemma fl_err_small:
  assumes "abs x \<le> c" "c + 1 \<le> k"
  shows "abs (fl x - x) \<le> k / 2 ^ 53"
proof -
  have "abs x / 2 ^ 53 \<le> c / 2 ^ 53" using assms(1) by (intro divide_right_mono) simp_all
  moreover have "(1::real) / 2 ^ 1075 \<le> 1 / 2 ^ 53" by simp
  moreover have "(c + 1) / 2 ^ 53 = c / 2 ^ 53 + 1 / (2::real) ^ 53" by (rule add_divide_distrib)
  moreover have "(c + 1) / 2 ^ 53 \<le> k / 2 ^ 53" using assms(2) by (intro divide_right_mono) simp_all
  ultimately show ?thesis using fl_err[of x] by linarith
qed

lemma near_scale2:
  assumes "abs (X - E * 2) \<le> p" "abs (E - Z) \<le> (q::real)"
  shows "abs (X - Z * 2) \<le> p + 2 * q"
proof -
  have "abs (X - 2 * E) \<le> p" using assms(1) by (simp add: mult.commute)
  then have "abs (X - 2 * Z) \<le> p + 2 * q" using assms(2) by linarith
  then show ?thesis by (simp add: mult.commute)
qed

lemma zigzag_near:
  assumes M: "1 / 2 ^ 1000 \<le> M" and s: "0 \<le> s" "s \<le> 1" and t0: "0 \<le> t"
    and ts: "abs (t - s) \<le> 2 / 2 ^ 53"
    and af: "abs (af - a) \<le> 7 * (M / 2 ^ 53)" and a: "0 \<le> a" "a \<le> M"
  shows "abs (splitOffset_f64 t ''zigzag'' af - splitOffset s ''zigzag'' a) \<le> 84 * (M / 2 ^ 53)"
proof -
  define U where "U = M / 2 ^ 53"
  define A where "A = fl (t * 8)"
  define z where "z = js_rem A 1"
  define B where "B = (if z < 1 / 2 then fl (z * 2) else fl (fl (1 - z) * 2))"
  define TA where "TA = (if z < 1 / 2 then z * 2 else (1 - z) * 2)"
  define T where "T = (if js_rem (s * 8) 1 < 1 / 2 then js_rem (s * 8) 1 * 2
                       else (1 - js_rem (s * 8) 1) * 2)"
  have M0: "0 < M" using M by (rule less_le_trans[rotated]) simp
  have U0: "0 \<le> U" using M0 by (simp add: U_def)
  have small: "(2::real) / 2 ^ 53 \<le> 1 / 8" by simp
  have t8: "abs (t * 8) \<le> 9" using ts s small by linarith
  have "abs (A - t * 8) \<le> 10 / 2 ^ 53" unfolding A_def by (rule fl_err_small[OF t8]) simp
  moreover have "abs (t * 8 - s * 8) \<le> 16 / 2 ^ 53" using ts by linarith
  moreover have "abs (A - s * 8) \<le> abs (A - t * 8) + abs (t * 8 - s * 8)" by linarith
  ultimately have As: "abs (A - s * 8) \<le> 26 / 2 ^ 53" by linarith
  have A0: "0 \<le> A" unfolding A_def using t0 by (intro fl_nonneg) simp
  have s8: "0 \<le> s * 8" using s by simp
  have z: "0 \<le> z" "z < 1" using js_rem_one_range[OF A0] by (simp_all add: z_def)
  have BT: "abs (B - TA) \<le> 8 / 2 ^ 53"
  proof (cases "z < 1 / 2")
    case True
    have "abs (z * 2) \<le> 2" using z by linarith
    then have "abs (fl (z * 2) - z * 2) \<le> 8 / 2 ^ 53" by (rule fl_err_small) simp
    then show ?thesis unfolding B_def TA_def using True by simp
  next
    case False
    have "abs (1 - z) \<le> 1" using z by linarith
    then have e: "abs (fl (1 - z) - (1 - z)) \<le> 2 / 2 ^ 53" by (rule fl_err_small) simp
    then have "abs (fl (1 - z) * 2) \<le> 3" using z small by linarith
    then have "abs (fl (fl (1 - z) * 2) - fl (1 - z) * 2) \<le> 4 / 2 ^ 53"
      by (rule fl_err_small) simp
    then have "abs (fl (fl (1 - z) * 2) - (1 - z) * 2) \<le> 4 / 2 ^ 53 + 2 * (2 / 2 ^ 53)"
      using e by (rule near_scale2)
    then have "abs (fl (fl (1 - z) * 2) - (1 - z) * 2) \<le> 8 / 2 ^ 53" by simp
    then show ?thesis unfolding B_def TA_def using False by simp
  qed
  have "abs (TA - T) \<le> 2 * abs (A - s * 8)"
    unfolding TA_def T_def z_def by (rule triangle_lipschitz[OF A0 s8])
  also have "\<dots> \<le> 2 * (26 / 2 ^ 53)" using As by (intro mult_left_mono) simp_all
  finally have "abs (TA - T) \<le> 52 / 2 ^ 53" by simp
  then have BTs: "abs (B - T) \<le> 60 / 2 ^ 53" using BT by linarith
  have T01: "0 \<le> T" "T \<le> 1" unfolding T_def using triangle_range[OF s8] by simp_all
  have Ta: "abs T \<le> 1" using T01 by simp
  have aM: "abs a \<le> M" using a by simp
  have afU: "abs (af - a) \<le> 7 * U" using af by (simp add: U_def)
  have "abs (af * B - a * T) \<le> (7 + 60 + 1) * U"
    by (rule product_near[OF U_def M0 afU _ _ aM BTs _ _ Ta]) simp_all
  then have p: "abs (B * af - T * a) \<le> 68 * (M / 2 ^ 53)"
    by (simp add: U_def mult.commute)
  have "T * a \<le> 1 * a" using T01 a by (intro mult_right_mono) simp_all
  moreover have "0 \<le> T * a" using T01 a by simp
  ultimately have Tr: "0 \<le> T * a" "T * a \<le> M" using a by simp_all
  then have "abs (T * a) \<le> 2 * M" using M0 by linarith
  then have C: "abs (fl (B * af) - T * a) \<le> (68 + 3) * (M / 2 ^ 53)"
    by (rule fl_near[OF M _ p]) simp
  have h: "abs (af * 0.5 - a * 0.5) \<le> 7 * (M / 2 ^ 53)" using af M0 by linarith
  have "abs (a * 0.5) \<le> 2 * M" using a M0 by linarith
  then have D: "abs (fl (af * 0.5) - a * 0.5) \<le> (7 + 3) * (M / 2 ^ 53)"
    by (rule fl_near[OF M _ h]) simp
  have q: "abs (fl (B * af) - fl (af * 0.5) - (T * a - a * 0.5))
           \<le> (68 + 3 + (7 + 3)) * (M / 2 ^ 53)"
    by (rule near_diff[OF C D])
  have "abs (T * a - a * 0.5) \<le> 2 * M" using Tr a M0 by linarith
  then have "abs (fl (fl (B * af) - fl (af * 0.5)) - (T * a - a * 0.5))
             \<le> (68 + 3 + (7 + 3) + 3) * (M / 2 ^ 53)"
    by (rule fl_near[OF M _ q]) simp
  moreover have "splitOffset_f64 t ''zigzag'' af = fl (fl (B * af) - fl (af * 0.5))"
    by (simp add: splitOffset_f64_def Let_def B_def z_def A_def)
  moreover have "splitOffset s ''zigzag'' a = T * a - a * 0.5"
    by (simp add: splitOffset_zigzag T_def)
  ultimately show ?thesis by simp
qed

lemma wave_near:
  assumes M: "1 / 2 ^ 1000 \<le> M" and s: "0 \<le> s" "s \<le> 1"
    and ts: "abs (t - s) \<le> 2 / 2 ^ 53"
    and af: "abs (af - a) \<le> 7 * (M / 2 ^ 53)" and a: "0 \<le> a" "a \<le> M"
  shows "abs (splitOffset_f64 t ''wave'' af - splitOffset s ''wave'' a) \<le> 159 * (M / 2 ^ 53)"
proof -
  define U where "U = M / 2 ^ 53"
  define P where "P = fl pi"
  define f1 where "f1 = fl (t * P)"
  define g where "g = fl (f1 * 4)"
  define S where "S = Math_sin g"
  have M0: "0 < M" using M by (rule less_le_trans[rotated]) simp
  have p4: "abs pi \<le> 4" using pi_gt_zero pi_less_4 by linarith
  have Pp: "abs (P - pi) \<le> 5 / 2 ^ 53" unfolding P_def by (rule fl_err_small[OF p4]) simp
  have four: "(0::real) < 4" by simp
  have sa: "abs s \<le> 1" using s by simp
  have "abs (P - pi) \<le> 2 * (4 / 2 ^ 53)" using Pp by simp
  then have "abs (P * t - pi * s) \<le> (2 + 2 + 1) * (4 / 2 ^ 53)"
    by (rule product_near[OF refl four _ _ _ p4 ts _ _ sa]) simp_all
  then have tp: "abs (t * P - s * pi) \<le> 20 / 2 ^ 53" by (simp add: mult.commute)
  have "s * pi \<le> 1 * pi" using s by (intro mult_right_mono) simp_all
  moreover have "0 \<le> s * pi" using s by simp
  ultimately have sp: "0 \<le> s * pi" "s * pi \<le> 4" using pi_less_4 by linarith+
  have small: "(20::real) / 2 ^ 53 \<le> 1" by simp
  have "abs (t * P) \<le> 5" using tp sp small by linarith
  then have "abs (f1 - t * P) \<le> 6 / 2 ^ 53" unfolding f1_def by (rule fl_err_small) simp
  then have f1n: "abs (f1 - s * pi) \<le> 26 / 2 ^ 53" using tp by linarith
  define q where "q = s * pi"
  define f4 where "f4 = f1 * 4"
  have f1q: "abs (f1 - q) \<le> 26 / 2 ^ 53" using f1n by (simp add: q_def)
  have q4: "0 \<le> q" "q \<le> 4" using sp by (simp_all add: q_def)
  have "abs (4 * f1 - 4 * q) \<le> 104 / 2 ^ 53" using f1q by linarith
  then have f4n: "abs (f4 - 4 * q) \<le> 104 / 2 ^ 53" by (simp add: f4_def mult.commute)
  have small2: "(104::real) / 2 ^ 53 \<le> 1" by simp
  have "abs f4 \<le> 17" using f4n q4 small2 by linarith
  then have "abs (fl f4 - f4) \<le> 18 / 2 ^ 53" by (rule fl_err_small) simp
  then have "abs (fl f4 - 4 * q) \<le> 122 / 2 ^ 53" using f4n by linarith
  then have gn: "abs (g - s * pi * 4) \<le> 122 / 2 ^ 53"
    by (simp add: g_def f4_def q_def mult.commute)
  have "abs (sin g - sin (s * pi * 4)) \<le> abs (g - s * pi * 4)" by (rule sin_lipschitz)
  then have sn: "abs (sin g - sin (s * pi * 4)) \<le> 122 / 2 ^ 53" using gn by linarith
  have "abs (sin g) \<le> 1" by simp
  then have "abs (S - sin g) \<le> 2 / 2 ^ 53"
    unfolding S_def Math_sin_def by (rule fl_err_small) simp
  then have Sn: "abs (S - sin (s * pi * 4)) \<le> 124 / 2 ^ 53" using sn by linarith
  have s1: "abs (sin (s * pi * 4)) \<le> 1" by simp
  have aM: "abs a \<le> M" using a by simp
  have afU: "abs (af - a) \<le> 7 * U" using af by (simp add: U_def)
  have "abs (af * S - a * sin (s * pi * 4)) \<le> (7 + 124 + 1) * U"
    by (rule product_near[OF U_def M0 afU _ _ aM Sn _ _ s1]) simp_all
  then have p: "abs (S * af - sin (s * pi * 4) * a) \<le> 132 * (M / 2 ^ 53)"
    by (simp add: U_def mult.commute)
  have "abs (sin (s * pi * 4) * a) \<le> 1 * M"
    unfolding abs_mult using s1 aM by (intro mult_mono) simp_all
  then have "abs (sin (s * pi * 4) * a) \<le> 2 * M" using M0 by linarith
  then have "abs (fl (S * af) - sin (s * pi * 4) * a) \<le> (132 + 3) * (M / 2 ^ 53)"
    by (rule fl_near[OF M _ p]) simp
  moreover have "splitOffset_f64 t ''wave'' af = fl (S * af)"
    by (simp add: splitOffset_f64_def S_def g_def f1_def P_def)
  moreover have "splitOffset s ''wave'' a = sin (s * pi * 4) * a"
    by (simp add: splitOffset_def)
  moreover have "135 * (M / 2 ^ 53) \<le> 159 * (M / 2 ^ 53)" using M0 by simp
  ultimately show ?thesis by simp
qed

lemma splitOffset_bound:
  assumes "0 \<le> s" "0 \<le> a"
  shows "abs (splitOffset s m a) \<le> a"
proof -
  consider "m = ''wave''" | "m = ''zigzag''" | "m \<noteq> ''wave''" "m \<noteq> ''zigzag''" by blast
  then show ?thesis
  proof cases
    case 1
    have "abs (sin (s * pi * 4) * a) \<le> 1 * a"
      unfolding abs_mult using assms by (intro mult_mono) simp_all
    then show ?thesis using 1 by (simp add: splitOffset_def)
  next
    case 2
    define T where "T = (if js_rem (s * 8) 1 < 1 / 2 then js_rem (s * 8) 1 * 2
                         else (1 - js_rem (s * 8) 1) * 2)"
    have s8: "0 \<le> s * 8" using assms by simp
    have T01: "0 \<le> T" "T \<le> 1" unfolding T_def using triangle_range[OF s8] by simp_all
    have "T * a \<le> 1 * a" using T01 assms by (intro mult_right_mono) simp_all
    moreover have "0 \<le> T * a" using T01 assms by simp
    ultimately have "abs (T * a - a * 0.5) \<le> a" by linarith
    moreover have "splitOffset s ''zigzag'' a = T * a - a * 0.5"
      by (simp add: splitOffset_zigzag T_def)
    ultimately show ?thesis using 2 by simp
  next
    case 3
    then show ?thesis using assms by (simp add: splitOffset_def)
  qed
qed

lemma offset_near:
  assumes M: "1 / 2 ^ 1000 \<le> M" and s: "0 \<le> s" "s \<le> 1" and t0: "0 \<le> t"
    and ts: "abs (t - s) \<le> 2 / 2 ^ 53"
    and af: "abs (af - a) \<le> 7 * (M / 2 ^ 53)" and a: "0 \<le> a" "a \<le> M"
  shows "abs (splitOffset_f64 t m af - splitOffset s m a) \<le> 159 * (M / 2 ^ 53)"
proof -
  have M0: "0 < M" using M by (rule less_le_trans[rotated]) simp
  consider "m = ''wave''" | "m = ''zigzag''" | "m \<noteq> ''wave''" "m \<noteq> ''zigzag''" by blast
  then show ?thesis
  proof cases
    case 1
    then show ?thesis using wave_near[OF M s ts af a] by simp
  next
    case 2
    have "84 * (M / 2 ^ 53) \<le> 159 * (M / 2 ^ 53)" using M0 by simp
    then show ?thesis using zigzag_near[OF M s t0 ts af a] 2 by simp
  next
    case 3
    then show ?thesis using M0 by (simp add: splitOffset_def splitOffset_f64_def)
  qed
qed

text \<open>The sampled points of a side against the points its formulas denote.\<close>

lemma horizontal_point_near:
  assumes Mx: "1 / 2 ^ 1000 \<le> Mx" and My: "1 / 2 ^ 1000 \<le> My"
    and x1: "abs (x1 - x1') \<le> 16 * (Mx / 2 ^ 53)" "abs x1' \<le> Mx / 2"
    and x2: "abs (x2 - x2') \<le> 16 * (Mx / 2 ^ 53)" "abs x2' \<le> Mx / 2"
    and Y: "abs (Y - Y') \<le> 16 * (My / 2 ^ 53)" "abs Y' \<le> My / 2"
    and af: "abs (af - a) \<le> 7 * (My / 2 ^ 53)" "0 \<le> a" "a \<le> My"
    and j: "j \<le> n" "0 < n"
  shows "abs (fst (generateHorizontalEdge_f64 x1 x2 Y m af n ! j)
              - fst (generateHorizontalEdge x1' x2' Y' m a n ! j)) \<le> 60 * (Mx / 2 ^ 53)"
    and "abs (snd (generateHorizontalEdge_f64 x1 x2 Y m af n ! j)
              - snd (generateHorizontalEdge x1' x2' Y' m a n ! j)) \<le> 178 * (My / 2 ^ 53)"
proof -
  define s where "s = real j / real n"
  define t where "t = fl s"
  have ts: "abs (t - s) \<le> 2 / 2 ^ 53" unfolding t_def s_def by (rule param_near(1)[OF j])
  have s0: "0 \<le> s" unfolding s_def by (rule param_near(2)[OF j])
  have s1: "s \<le> 1" unfolding s_def by (rule param_near(3)[OF j])
  have t0: "0 \<le> t" unfolding t_def s_def by (rule param_near(4)[OF j])
  have My0: "0 < My" using My by (rule less_le_trans[rotated]) simp
  have "abs (fl (x1 + fl (fl (x2 - x1) * t)) - (x1' + (x2' - x1') * s)) \<le> 60 * (Mx / 2 ^ 53)"
    by (rule lerp_near[OF Mx x1(1) x2(1) x1(2) x2(2) ts s0 s1])
  then show "abs (fst (generateHorizontalEdge_f64 x1 x2 Y m af n ! j)
              - fst (generateHorizontalEdge x1' x2' Y' m a n ! j)) \<le> 60 * (Mx / 2 ^ 53)"
    by (simp add: nth_horizontal_f64[OF j(1)] nth_horizontal[OF j(1)] t_def s_def)
  have o: "abs (splitOffset_f64 t m af - splitOffset s m a) \<le> 159 * (My / 2 ^ 53)"
    by (rule offset_near[OF My s0 s1 t0 ts af])
  have q: "abs (Y + splitOffset_f64 t m af - (Y' + splitOffset s m a))
           \<le> (16 + 159) * (My / 2 ^ 53)"
    by (rule near_add[OF Y(1) o])
  have "abs (splitOffset s m a) \<le> a" by (rule splitOffset_bound[OF s0 af(2)])
  then have "abs (Y' + splitOffset s m a) \<le> 2 * My" using Y(2) af(3) My0 by linarith
  then have "abs (fl (Y + splitOffset_f64 t m af) - (Y' + splitOffset s m a))
             \<le> (16 + 159 + 3) * (My / 2 ^ 53)"
    by (rule fl_near[OF My _ q]) simp
  then show "abs (snd (generateHorizontalEdge_f64 x1 x2 Y m af n ! j)
              - snd (generateHorizontalEdge x1' x2' Y' m a n ! j)) \<le> 178 * (My / 2 ^ 53)"
    by (simp add: nth_horizontal_f64[OF j(1)] nth_horizontal[OF j(1)] t_def s_def)
qed

lemma vertical_point_near:
  assumes Mx: "1 / 2 ^ 1000 \<le> Mx" and My: "1 / 2 ^ 1000 \<le> My"
    and y1: "abs (y1 - y1') \<le> 16 * (My / 2 ^ 53)" "abs y1' \<le> My / 2"
    and y2: "abs (y2 - y2') \<le> 16 * (My / 2 ^ 53)" "abs y2' \<le> My / 2"
    and X: "abs (X - X') \<le> 16 * (Mx / 2 ^ 53)" "abs X' \<le> Mx / 2"
    and af: "abs (af - a) \<le> 7 * (Mx / 2 ^ 53)" "0 \<le> a" "a \<le> Mx"
    and j: "j \<le> n" "0 < n"
  shows "abs (fst (generateVerticalEdge_f64 X y1 y2 m af n ! j)
              - fst (generateVerticalEdge X' y1' y2' m a n ! j)) \<le> 178 * (Mx / 2 ^ 53)"
    and "abs (snd (generateVerticalEdge_f64 X y1 y2 m af n ! j)
              - snd (generateVerticalEdge X' y1' y2' m a n ! j)) \<le> 60 * (My / 2 ^ 53)"
proof -
  define s where "s = real j / real n"
  define t where "t = fl s"
  have ts: "abs (t - s) \<le> 2 / 2 ^ 53" unfolding t_def s_def by (rule param_near(1)[OF j])
  have s0: "0 \<le> s" unfolding s_def by (rule param_near(2)[OF j])
  have s1: "s \<le> 1" unfolding s_def by (rule param_near(3)[OF j])
  have t0: "0 \<le> t" unfolding t_def s_def by (rule param_near(4)[OF j])
  have Mx0: "0 < Mx" using Mx by (rule less_le_trans[rotated]) simp
  have "abs (fl (y1 + fl (fl (y2 - y1) * t)) - (y1' + (y2' - y1') * s)) \<le> 60 * (My / 2 ^ 53)"
    by (rule lerp_near[OF My y1(1) y2(1) y1(2) y2(2) ts s0 s1])
  then show "abs (snd (generateVerticalEdge_f64 X y1 y2 m af n ! j)
              - snd (generateVerticalEdge X' y1' y2' m a n ! j)) \<le> 60 * (My / 2 ^ 53)"
    by (simp add: nth_vertical_f64[OF j(1)] nth_vertical[OF j(1)] t_def s_def)
  have o: "abs (splitOffset_f64 t m af - splitOffset s m a) \<le> 159 * (Mx / 2 ^ 53)"
    by (rule offset_near[OF Mx s0 s1 t0 ts af])
  have q: "abs (X + splitOffset_f64 t m af - (X' + splitOffset s m a))
           \<le> (16 + 159) * (Mx / 2 ^ 53)"
    by (rule near_add[OF X(1) o])
  have "abs (splitOffset s m a) \<le> a" by (rule splitOffset_bound[OF s0 af(2)])
  then have "abs (X' + splitOffset s m a) \<le> 2 * Mx" using X(2) af(3) Mx0 by linarith
  then have "abs (fl (X + splitOffset_f64 t m af) - (X' + splitOffset s m a))
             \<le> (16 + 159 + 3) * (Mx / 2 ^ 53)"
    by (rule fl_near[OF Mx _ q]) simp
  then show "abs (fst (generateVerticalEdge_f64 X y1 y2 m af n ! j)
              - fst (generateVerticalEdge X' y1' y2' m a n ! j)) \<le> 178 * (Mx / 2 ^ 53)"
    by (simp add: nth_vertical_f64[OF j(1)] nth_vertical[OF j(1)] t_def s_def)
qed

lemma min_near:
  assumes a: "abs (a - a') \<le> a' / 2 ^ 53 + e" and b: "abs (b - b') \<le> b' / 2 ^ 53 + e"
  shows "abs (min a b - min a' b') \<le> min a' b' / 2 ^ 53 + (e::real)"
proof -
  have c: "x \<le> y \<Longrightarrow> x - x / 2 ^ 53 \<le> y - y / 2 ^ 53" for x y :: real by simp
  show ?thesis
  proof (cases "a' \<le> b'")
    case True
    then have m': "min a' b' = a'" by simp
    have "a' - a' / 2 ^ 53 \<le> b' - b' / 2 ^ 53" using True by (rule c)
    then have l: "a' - a' / 2 ^ 53 - e \<le> min a b" using a b by (simp add: min_def) linarith
    have u: "min a b \<le> a' + a' / 2 ^ 53 + e" using a by (simp add: min_def) linarith
    show ?thesis unfolding m' using l u by linarith
  next
    case False
    then have m': "min a' b' = b'" by simp
    have "b' - b' / 2 ^ 53 \<le> a' - a' / 2 ^ 53" using False by (intro c) simp
    then have l: "b' - b' / 2 ^ 53 - e \<le> min a b" using a b by (simp add: min_def) linarith
    have u: "min a b \<le> b' + b' / 2 ^ 53 + e" using b by (simp add: min_def) linarith
    show ?thesis unfolding m' using l u by linarith
  qed
qed

lemma size_range:
  assumes w: "1 / 2 ^ 900 \<le> (w::real)" and g: "1 \<le> g" "g \<le> 2 ^ 53"
  shows "1 / 2 ^ 1000 \<le> w / of_int g" and "w / of_int g \<le> w"
proof -
  have w0: "0 < w" using w by (rule less_le_trans[rotated]) simp
  have g1: "(1::real) \<le> of_int g" using g by simp
  have "(of_int g :: real) \<le> of_int (2 ^ 53)" using g(2) by (rule of_int_le_iff[THEN iffD2])
  then have g53: "(of_int g :: real) \<le> 2 ^ 53" by simp
  have "(1::real) / 2 ^ 1000 \<le> 1 / 2 ^ 900 / 2 ^ 53" by simp
  also have "\<dots> \<le> w / 2 ^ 53" using w by (intro divide_right_mono) simp_all
  also have "\<dots> \<le> w / of_int g" using g53 g1 w0 by (intro divide_left_mono) simp_all
  finally show "1 / 2 ^ 1000 \<le> w / of_int g" .
  have "w / of_int g \<le> w / 1" using g1 w0 by (intro divide_left_mono) simp_all
  then show "w / of_int g \<le> w" by simp
qed

lemma amplitude_near:
  assumes r: "binary64_range params"
  shows "abs (amplitudeOf_f64 params - amplitudeOf params) \<le> 7 * (width params / 2 ^ 53)"
    and "abs (amplitudeOf_f64 params - amplitudeOf params) \<le> 7 * (height params / 2 ^ 53)"
    and "0 \<le> amplitudeOf params"
    and "amplitudeOf params \<le> width params" and "amplitudeOf params \<le> height params"
proof -
  define w where "w = width params"
  define h where "h = height params"
  define pw where "pw = w / of_int (gridX params)"
  define ph where "ph = h / of_int (gridY params)"
  define m where "m = min pw ph"
  define mf where "mf = min (fl pw) (fl ph)"
  have w: "1 / 2 ^ 900 \<le> w" and h: "1 / 2 ^ 900 \<le> h"
    and gx: "1 \<le> gridX params" "gridX params \<le> 2 ^ 53"
    and gy: "1 \<le> gridY params" "gridY params \<le> 2 ^ 53"
    using r by (simp_all add: binary64_range_def w_def h_def)
  have pw: "1 / 2 ^ 1000 \<le> pw" "pw \<le> w" unfolding pw_def by (rule size_range[OF w gx])+
  have ph: "1 / 2 ^ 1000 \<le> ph" "ph \<le> h" unfolding ph_def by (rule size_range[OF h gy])+
  have m: "1 / 2 ^ 1000 \<le> m" "m \<le> w" "m \<le> h" using pw ph by (simp_all add: m_def)
  have m0: "0 < m" using m(1) by (rule less_le_trans[rotated]) simp
  have pw0: "0 \<le> pw" using pw(1) by (rule order_trans[rotated]) simp
  have ph0: "0 \<le> ph" using ph(1) by (rule order_trans[rotated]) simp
  have "abs (fl pw - pw) \<le> abs pw / 2 ^ 53 + 1 / 2 ^ 1075" by (rule fl_err)
  then have a: "abs (fl pw - pw) \<le> pw / 2 ^ 53 + 1 / 2 ^ 1075" using pw0 by simp
  have "abs (fl ph - ph) \<le> abs ph / 2 ^ 53 + 1 / 2 ^ 1075" by (rule fl_err)
  then have b: "abs (fl ph - ph) \<le> ph / 2 ^ 53 + 1 / 2 ^ 1075" using ph0 by simp
  have "abs (mf - m) \<le> m / 2 ^ 53 + 1 / 2 ^ 1075"
    unfolding mf_def m_def by (rule min_near[OF a b])
  define U where "U = m / 2 ^ 53"
  have "1 / 2 ^ 1075 \<le> U / 2" using tiny_le[OF m(1)] by (simp add: U_def)
  moreover have "0 \<le> U" using m0 by (simp add: U_def)
  moreover have "abs (mf - m) \<le> U + 1 / 2 ^ 1075"
    using \<open>abs (mf - m) \<le> m / 2 ^ 53 + 1 / 2 ^ 1075\<close> by (simp add: U_def)
  ultimately have "abs (mf - m) \<le> 2 * U" by linarith
  then have mn: "abs (mf - m) \<le> 2 * (m / 2 ^ 53)" by (simp add: U_def)
  have "abs (fl (2 / 25) - 2 / 25) \<le> abs (2 / 25) / 2 ^ 53 + 1 / 2 ^ 1075" by (rule fl_err)
  also have "\<dots> \<le> 1 / 2 ^ 53" by simp
  finally have c8: "abs (fl (2 / 25) - 2 / 25) \<le> 1 / 2 ^ 53" .
  have ma: "abs m \<le> m" using m0 by simp
  have "abs (mf * fl (2 / 25) - m * (2 / 25)) \<le> (2 + 1 + 1) * (m / 2 ^ 53)"
    by (rule product_near[OF refl m0 mn _ _ ma c8]) simp_all
  then have p: "abs (mf * fl (2 / 25) - m * (2 / 25)) \<le> 4 * (m / 2 ^ 53)" by simp
  have "abs (m * (2 / 25)) \<le> 2 * m" using m0 by simp
  then have "abs (fl (mf * fl (2 / 25)) - m * (2 / 25)) \<le> (4 + 3) * (m / 2 ^ 53)"
    by (rule fl_near[OF m(1) _ p]) simp
  then have n: "abs (fl (mf * fl (2 / 25)) - m * (2 / 25)) \<le> 7 * (m / 2 ^ 53)" by simp
  have af: "amplitudeOf_f64 params = fl (mf * fl (2 / 25))"
    by (simp add: amplitudeOf_f64_def pieceW_f64_def pieceH_f64_def mf_def pw_def ph_def
          w_def h_def)
  have ae: "amplitudeOf params = m * (2 / 25)"
    by (simp add: amplitudeOf_def pieceW_def pieceH_def m_def pw_def ph_def w_def h_def)
  have "7 * (m / 2 ^ 53) \<le> 7 * (w / 2 ^ 53)" using m(2) by simp
  then show "abs (amplitudeOf_f64 params - amplitudeOf params) \<le> 7 * (width params / 2 ^ 53)"
    unfolding af ae w_def[symmetric] using n by linarith
  have "7 * (m / 2 ^ 53) \<le> 7 * (h / 2 ^ 53)" using m(3) by simp
  then show "abs (amplitudeOf_f64 params - amplitudeOf params) \<le> 7 * (height params / 2 ^ 53)"
    unfolding af ae h_def[symmetric] using n by linarith
  show "0 \<le> amplitudeOf params" unfolding ae using m0 by simp
  have "m * (2 / 25) \<le> m" using m0 by simp
  then show "amplitudeOf params \<le> width params" "amplitudeOf params \<le> height params"
    unfolding ae w_def[symmetric] h_def[symmetric] using m(2,3) by linarith+
qed

lemma xLeft_near:
  assumes r: "binary64_range params" and c: "0 \<le> c" "c \<le> gridX params"
  shows "abs (xLeft_f64 c params - xLeft c params) \<le> 16 * (width params / 2 ^ 53)"
    and "abs (xLeft c params) \<le> width params / 2"
proof -
  have w: "1 / 2 ^ 900 \<le> width params"
    and g: "1 \<le> gridX params" "gridX params \<le> 2 ^ 53"
    using r by (simp_all add: binary64_range_def)
  have w0: "0 < width params" using w by (rule less_le_trans[rotated]) simp
  have w0': "0 \<le> width params" using w0 by simp
  have "abs (xLeft_f64 c params - xLeft c params) \<le> 11 * (width params / 2 ^ 53)"
    unfolding xLeft_f64_def xLeft_def pieceW_f64_def pieceW_def
    by (rule corner_near[OF w g c])
  moreover have "11 * (width params / 2 ^ 53) \<le> 16 * (width params / 2 ^ 53)"
    using w0 by simp
  ultimately show "abs (xLeft_f64 c params - xLeft c params) \<le> 16 * (width params / 2 ^ 53)"
    by (rule order_trans)
  show "abs (xLeft c params) \<le> width params / 2"
    unfolding xLeft_def pieceW_def by (rule exact_corner_bound(1)[OF w0' g(1) c])
qed

lemma xRight_near:
  assumes r: "binary64_range params" and c: "0 \<le> c" "c + 1 \<le> gridX params"
  shows "abs (xRight_f64 c params - xRight c params) \<le> 16 * (width params / 2 ^ 53)"
    and "abs (xRight c params) \<le> width params / 2"
proof -
  have w: "1 / 2 ^ 900 \<le> width params"
    and g: "1 \<le> gridX params" "gridX params \<le> 2 ^ 53"
    using r by (simp_all add: binary64_range_def)
  show "abs (xRight_f64 c params - xRight c params) \<le> 16 * (width params / 2 ^ 53)"
    unfolding xRight_f64_def xRight_def xLeft_f64_def xLeft_def pieceW_f64_def pieceW_def
    by (rule next_corner_near[OF w g c])
  have c': "0 \<le> c + 1" using c by simp
  show "abs (xRight c params) \<le> width params / 2"
    unfolding shared_x by (rule xLeft_near(2)[OF r c' c(2)])
qed

lemma yBottom_near:
  assumes r: "binary64_range params" and c: "0 \<le> k" "k \<le> gridY params"
  shows "abs (yBottom_f64 k params - yBottom k params) \<le> 16 * (height params / 2 ^ 53)"
    and "abs (yBottom k params) \<le> height params / 2"
proof -
  have w: "1 / 2 ^ 900 \<le> height params"
    and g: "1 \<le> gridY params" "gridY params \<le> 2 ^ 53"
    using r by (simp_all add: binary64_range_def)
  have w0: "0 < height params" using w by (rule less_le_trans[rotated]) simp
  have w0': "0 \<le> height params" using w0 by simp
  have "abs (yBottom_f64 k params - yBottom k params) \<le> 11 * (height params / 2 ^ 53)"
    unfolding yBottom_f64_def yBottom_def pieceH_f64_def pieceH_def
    by (rule corner_near[OF w g c])
  moreover have "11 * (height params / 2 ^ 53) \<le> 16 * (height params / 2 ^ 53)"
    using w0 by simp
  ultimately show "abs (yBottom_f64 k params - yBottom k params) \<le> 16 * (height params / 2 ^ 53)"
    by (rule order_trans)
  show "abs (yBottom k params) \<le> height params / 2"
    unfolding yBottom_def pieceH_def by (rule exact_corner_bound(1)[OF w0' g(1) c])
qed

lemma yTop_near:
  assumes r: "binary64_range params" and c: "0 \<le> k" "k + 1 \<le> gridY params"
  shows "abs (yTop_f64 k params - yTop k params) \<le> 16 * (height params / 2 ^ 53)"
    and "abs (yTop k params) \<le> height params / 2"
proof -
  have w: "1 / 2 ^ 900 \<le> height params"
    and g: "1 \<le> gridY params" "gridY params \<le> 2 ^ 53"
    using r by (simp_all add: binary64_range_def)
  show "abs (yTop_f64 k params - yTop k params) \<le> 16 * (height params / 2 ^ 53)"
    unfolding yTop_f64_def yTop_def yBottom_f64_def yBottom_def pieceH_f64_def pieceH_def
    by (rule next_corner_near[OF w g c])
  have c': "0 \<le> k + 1" using c by simp
  show "abs (yTop k params) \<le> height params / 2"
    unfolding shared_y by (rule yBottom_near(2)[OF r c' c(2)])
qed

lemma range_sizes:
  assumes r: "binary64_range params"
  shows "1 / 2 ^ 1000 \<le> width params" and "1 / 2 ^ 1000 \<le> height params"
    and "0 < width params" and "0 < height params"
proof -
  have w: "1 / 2 ^ 900 \<le> width params" and h: "1 / 2 ^ 900 \<le> height params"
    using r by (simp_all add: binary64_range_def)
  show "1 / 2 ^ 1000 \<le> width params" by (rule range_weaken[OF w])
  show "1 / 2 ^ 1000 \<le> height params" by (rule range_weaken[OF h])
  show "0 < width params" using w by (rule less_le_trans[rotated]) simp
  show "0 < height params" using h by (rule less_le_trans[rotated]) simp
qed

lemma weaken_60:
  assumes "abs x \<le> 60 * (M / 2 ^ 53)" "0 < (M::real)"
  shows "abs x \<le> 178 * (M / 2 ^ 53)"
proof -
  have "60 * (M / 2 ^ 53) \<le> 178 * (M / 2 ^ 53)" using assms(2) by simp
  with assms(1) show ?thesis by (rule order_trans)
qed

lemma topPts_near:
  assumes r: "binary64_range params" and c: "0 \<le> c" "c + 1 \<le> gridX params"
    and k: "0 \<le> k" "k + 1 \<le> gridY params" and j: "j \<le> 30"
  shows "abs (fst (topPts_f64 c k params ! j) - fst (topPts c k params ! j))
         \<le> 178 * (width params / 2 ^ 53)"
    and "abs (snd (topPts_f64 c k params ! j) - snd (topPts c k params ! j))
         \<le> 178 * (height params / 2 ^ 53)"
proof -
  have c': "c \<le> gridX params" using c by simp
  have n: "(0::nat) < 30" by simp
  note h = horizontal_point_near[OF range_sizes(1,2)[OF r]
      xRight_near[OF r c] xLeft_near[OF r c(1) c'] yTop_near[OF r k]
      amplitude_near(2,3,5)[OF r] j n]
  show "abs (fst (topPts_f64 c k params ! j) - fst (topPts c k params ! j))
         \<le> 178 * (width params / 2 ^ 53)"
    unfolding topPts_f64_def topPts_def by (rule weaken_60[OF h(1) range_sizes(3)[OF r]])
  show "abs (snd (topPts_f64 c k params ! j) - snd (topPts c k params ! j))
         \<le> 178 * (height params / 2 ^ 53)"
    unfolding topPts_f64_def topPts_def by (rule h(2))
qed

lemma bottomPts_near:
  assumes r: "binary64_range params" and c: "0 \<le> c" "c + 1 \<le> gridX params"
    and k: "0 \<le> k" "k \<le> gridY params" and j: "j \<le> 30"
  shows "abs (fst (bottomPts_f64 c k params ! j) - fst (bottomPts c k params ! j))
         \<le> 178 * (width params / 2 ^ 53)"
    and "abs (snd (bottomPts_f64 c k params ! j) - snd (bottomPts c k params ! j))
         \<le> 178 * (height params / 2 ^ 53)"
proof -
  have c': "c \<le> gridX params" using c by simp
  have n: "(0::nat) < 30" by simp
  note h = horizontal_point_near[OF range_sizes(1,2)[OF r]
      xLeft_near[OF r c(1) c'] xRight_near[OF r c] yBottom_near[OF r k]
      amplitude_near(2,3,5)[OF r] j n]
  show "abs (fst (bottomPts_f64 c k params ! j) - fst (bottomPts c k params ! j))
         \<le> 178 * (width params / 2 ^ 53)"
    unfolding bottomPts_f64_def bottomPts_def by (rule weaken_60[OF h(1) range_sizes(3)[OF r]])
  show "abs (snd (bottomPts_f64 c k params ! j) - snd (bottomPts c k params ! j))
         \<le> 178 * (height params / 2 ^ 53)"
    unfolding bottomPts_f64_def bottomPts_def by (rule h(2))
qed

lemma leftPts_near:
  assumes r: "binary64_range params" and c: "0 \<le> c" "c \<le> gridX params"
    and k: "0 \<le> k" "k + 1 \<le> gridY params" and j: "j \<le> 30"
  shows "abs (fst (leftPts_f64 c k params ! j) - fst (leftPts c k params ! j))
         \<le> 178 * (width params / 2 ^ 53)"
    and "abs (snd (leftPts_f64 c k params ! j) - snd (leftPts c k params ! j))
         \<le> 178 * (height params / 2 ^ 53)"
proof -
  have k': "k \<le> gridY params" using k by simp
  have n: "(0::nat) < 30" by simp
  note h = vertical_point_near[OF range_sizes(1,2)[OF r]
      yTop_near[OF r k] yBottom_near[OF r k(1) k'] xLeft_near[OF r c]
      amplitude_near(1,3,4)[OF r] j n]
  show "abs (fst (leftPts_f64 c k params ! j) - fst (leftPts c k params ! j))
         \<le> 178 * (width params / 2 ^ 53)"
    unfolding leftPts_f64_def leftPts_def by (rule h(1))
  show "abs (snd (leftPts_f64 c k params ! j) - snd (leftPts c k params ! j))
         \<le> 178 * (height params / 2 ^ 53)"
    unfolding leftPts_f64_def leftPts_def by (rule weaken_60[OF h(2) range_sizes(4)[OF r]])
qed

lemma rightPts_near:
  assumes r: "binary64_range params" and c: "0 \<le> c" "c + 1 \<le> gridX params"
    and k: "0 \<le> k" "k + 1 \<le> gridY params" and j: "j \<le> 30"
  shows "abs (fst (rightPts_f64 c k params ! j) - fst (rightPts c k params ! j))
         \<le> 178 * (width params / 2 ^ 53)"
    and "abs (snd (rightPts_f64 c k params ! j) - snd (rightPts c k params ! j))
         \<le> 178 * (height params / 2 ^ 53)"
proof -
  have k': "k \<le> gridY params" using k by simp
  have n: "(0::nat) < 30" by simp
  note h = vertical_point_near[OF range_sizes(1,2)[OF r]
      yBottom_near[OF r k(1) k'] yTop_near[OF r k] xRight_near[OF r c]
      amplitude_near(1,3,4)[OF r] j n]
  show "abs (fst (rightPts_f64 c k params ! j) - fst (rightPts c k params ! j))
         \<le> 178 * (width params / 2 ^ 53)"
    unfolding rightPts_f64_def rightPts_def by (rule h(1))
  show "abs (snd (rightPts_f64 c k params ! j) - snd (rightPts c k params ! j))
         \<le> 178 * (height params / 2 ^ 53)"
    unfolding rightPts_f64_def rightPts_def by (rule weaken_60[OF h(2) range_sizes(4)[OF r]])
qed

text \<open>The points two adjacent pieces compute for their common side.\<close>

lemma binary64_range_mode [simp]:
  "binary64_range (params\<lparr>splitMode := m\<rparr>) = binary64_range params"
  by (simp add: binary64_range_def)

lemma pair_near:
  assumes "abs (p - a) \<le> 178 * (M / 2 ^ 53)" "abs (q - b) \<le> 178 * (M / 2 ^ 53)"
    and "a = b" and "0 < (M::real)"
  shows "abs (p - q) \<le> M / 2 ^ 44"
proof -
  define U where "U = M / 2 ^ 53"
  have "abs (p - q) \<le> 356 * U" using assms(1,2,3) unfolding U_def[symmetric] by linarith
  moreover have "356 * U \<le> 512 * U" using assms(4) by (simp add: U_def)
  moreover have "512 * U = M / 2 ^ 44" by (simp add: U_def)
  ultimately show ?thesis by linarith
qed

lemma pair_sum_near:
  assumes "abs (p - a) \<le> 178 * (M / 2 ^ 53)" "abs (q - b) \<le> 178 * (M / 2 ^ 53)"
    and "a + b = 2 * L" and "0 < (M::real)"
  shows "abs (p + q - 2 * L) \<le> M / 2 ^ 44"
proof -
  define U where "U = M / 2 ^ 53"
  define L2 where "L2 = 2 * L"
  have "a + b = L2" using assms(3) by (simp add: L2_def)
  then have "abs (p + q - L2) \<le> 356 * U" using assms(1,2) unfolding U_def[symmetric] by linarith
  moreover have "356 * U \<le> 512 * U" using assms(4) by (simp add: U_def)
  moreover have "512 * U = M / 2 ^ 44" by (simp add: U_def)
  ultimately show ?thesis unfolding L2_def by linarith
qed

lemma length_sides [simp]:
  "length (topPts c r params) = 31" "length (bottomPts c r params) = 31"
  "length (leftPts c r params) = 31" "length (rightPts c r params) = 31"
  "length (topPts_f64 c r params) = 31" "length (bottomPts_f64 c r params) = 31"
  "length (leftPts_f64 c r params) = 31" "length (rightPts_f64 c r params) = 31"
  by (simp_all add: topPts_def bottomPts_def leftPts_def rightPts_def
        topPts_f64_def bottomPts_f64_def leftPts_f64_def rightPts_f64_def)

lemma horizontal_pair_near:
  assumes r: "binary64_range params" and c: "0 \<le> c" "c + 1 \<le> gridX params"
    and k: "0 \<le> k" "k + 1 \<le> gridY params" and i: "i \<le> 30"
    and e: "rev (topPts c k params) = bottomPts c (k + 1) params"
  shows "abs (fst (rev (topPts_f64 c k params) ! i) - fst (bottomPts_f64 c (k + 1) params ! i))
         \<le> width params / 2 ^ 44"
    and "abs (snd (rev (topPts_f64 c k params) ! i) - snd (bottomPts_f64 c (k + 1) params ! i))
         \<le> height params / 2 ^ 44"
proof -
  have j: "30 - i \<le> 30" by simp
  have k1: "0 \<le> k + 1" using k by simp
  have rf: "rev (topPts_f64 c k params) ! i = topPts_f64 c k params ! (30 - i)"
    by (rule rev_nth_31[OF _ i]) simp
  have "rev (topPts c k params) ! i = topPts c k params ! (30 - i)"
    by (rule rev_nth_31[OF _ i]) simp
  then have ex: "topPts c k params ! (30 - i) = bottomPts c (k + 1) params ! i"
    unfolding e by simp
  show "abs (fst (rev (topPts_f64 c k params) ! i) - fst (bottomPts_f64 c (k + 1) params ! i))
         \<le> width params / 2 ^ 44"
    unfolding rf
    by (rule pair_near[OF topPts_near(1)[OF r c k j] bottomPts_near(1)[OF r c k1 k(2) i]
          _ range_sizes(3)[OF r]]) (simp add: ex)
  show "abs (snd (rev (topPts_f64 c k params) ! i) - snd (bottomPts_f64 c (k + 1) params ! i))
         \<le> height params / 2 ^ 44"
    unfolding rf
    by (rule pair_near[OF topPts_near(2)[OF r c k j] bottomPts_near(2)[OF r c k1 k(2) i]
          _ range_sizes(4)[OF r]]) (simp add: ex)
qed

lemma vertical_pair_near:
  assumes r: "binary64_range params" and c: "0 \<le> c" "c + 1 \<le> gridX params"
    and k: "0 \<le> k" "k + 1 \<le> gridY params" and i: "i \<le> 30"
    and e: "rev (leftPts (c + 1) k params) = rightPts c k params"
  shows "abs (fst (rev (leftPts_f64 (c + 1) k params) ! i) - fst (rightPts_f64 c k params ! i))
         \<le> width params / 2 ^ 44"
    and "abs (snd (rev (leftPts_f64 (c + 1) k params) ! i) - snd (rightPts_f64 c k params ! i))
         \<le> height params / 2 ^ 44"
proof -
  have j: "30 - i \<le> 30" by simp
  have c1: "0 \<le> c + 1" using c by simp
  have rf: "rev (leftPts_f64 (c + 1) k params) ! i = leftPts_f64 (c + 1) k params ! (30 - i)"
    by (rule rev_nth_31[OF _ i]) simp
  have "rev (leftPts (c + 1) k params) ! i = leftPts (c + 1) k params ! (30 - i)"
    by (rule rev_nth_31[OF _ i]) simp
  then have ex: "leftPts (c + 1) k params ! (30 - i) = rightPts c k params ! i"
    unfolding e by simp
  show "abs (fst (rev (leftPts_f64 (c + 1) k params) ! i) - fst (rightPts_f64 c k params ! i))
         \<le> width params / 2 ^ 44"
    unfolding rf
    by (rule pair_near[OF leftPts_near(1)[OF r c1 c(2) k j] rightPts_near(1)[OF r c k i]
          _ range_sizes(3)[OF r]]) (simp add: ex)
  show "abs (snd (rev (leftPts_f64 (c + 1) k params) ! i) - snd (rightPts_f64 c k params ! i))
         \<le> height params / 2 ^ 44"
    unfolding rf
    by (rule pair_near[OF leftPts_near(2)[OF r c1 c(2) k j] rightPts_near(2)[OF r c k i]
          _ range_sizes(4)[OF r]]) (simp add: ex)
qed

text \<open>The reversal identities of the offset, on doubles.\<close>

lemma weaken_178:
  assumes "abs x \<le> k * (M / 2 ^ 53)" "k \<le> 178" "0 < (M::real)"
  shows "abs x \<le> 178 * (M / 2 ^ 53)"
proof -
  have "0 \<le> M / 2 ^ 53" using assms(3) by simp
  then have "k * (M / 2 ^ 53) \<le> 178 * (M / 2 ^ 53)" using assms(2) by (rule mult_right_mono[rotated])
  with assms(1) show ?thesis by (rule order_trans)
qed

lemma reflected_param:
  assumes "0 \<le> t" "t \<le> 1"
  shows "0 \<le> 1 - t" and "1 - t \<le> 1" and "0 \<le> fl (1 - t)"
    and "abs (fl (1 - t) - (1 - t)) \<le> 2 / 2 ^ 53" and "abs (t - t) \<le> 2 / 2 ^ 53"
proof -
  show a: "0 \<le> 1 - t" using assms by simp
  show "1 - t \<le> 1" using assms by simp
  show "0 \<le> fl (1 - t)" using a by (rule fl_nonneg)
  have "abs (1 - t) \<le> 1" using assms by simp
  then show "abs (fl (1 - t) - (1 - t)) \<le> 2 / 2 ^ 53" by (rule fl_err_small) simp
  show "abs (t - t) \<le> 2 / 2 ^ 53" by simp
qed

lemma exact_amplitude:
  assumes "1 / 2 ^ 1000 \<le> (a::real)"
  shows "abs (a - a) \<le> 7 * (a / 2 ^ 53)" and "0 \<le> a" and "a \<le> a" and "0 < a"
proof -
  show p: "0 < a" using assms by (rule less_le_trans[rotated]) simp
  then show "abs (a - a) \<le> 7 * (a / 2 ^ 53)" by simp
  show "0 \<le> a" using p by simp
  show "a \<le> a" by simp
qed

lemma zigzag_identity_near:
  assumes t: "0 \<le> t" "t \<le> 1" and a: "1 / 2 ^ 1000 \<le> a"
  shows "abs (splitOffset_f64 (fl (1 - t)) ''zigzag'' a - splitOffset_f64 t ''zigzag'' a)
         \<le> a / 2 ^ 44"
proof -
  note p = reflected_param[OF t]
  note e = exact_amplitude[OF a]
  have x: "abs (splitOffset_f64 (fl (1 - t)) ''zigzag'' a - splitOffset (1 - t) ''zigzag'' a)
           \<le> 84 * (a / 2 ^ 53)"
    by (rule zigzag_near[OF a p(1) p(2) p(3) p(4) e(1) e(2) e(3)])
  have y: "abs (splitOffset_f64 t ''zigzag'' a - splitOffset t ''zigzag'' a)
           \<le> 84 * (a / 2 ^ 53)"
    by (rule zigzag_near[OF a t t(1) p(5) e(1) e(2) e(3)])
  show ?thesis
    by (rule pair_near[OF weaken_178[OF x _ e(4)] weaken_178[OF y _ e(4)] zigzag_even[OF t] e(4)])
       simp_all
qed

lemma wave_identity_near:
  assumes t: "0 \<le> t" "t \<le> 1" and a: "1 / 2 ^ 1000 \<le> a"
  shows "abs (splitOffset_f64 (fl (1 - t)) ''wave'' a + splitOffset_f64 t ''wave'' a)
         \<le> a / 2 ^ 44"
proof -
  note p = reflected_param[OF t]
  note e = exact_amplitude[OF a]
  have x: "abs (splitOffset_f64 (fl (1 - t)) ''wave'' a - splitOffset (1 - t) ''wave'' a)
           \<le> 159 * (a / 2 ^ 53)"
    by (rule wave_near[OF a p(1) p(2) p(4) e(1) e(2) e(3)])
  have y: "abs (splitOffset_f64 t ''wave'' a - splitOffset t ''wave'' a)
           \<le> 159 * (a / 2 ^ 53)"
    by (rule wave_near[OF a t p(5) e(1) e(2) e(3)])
  have z: "splitOffset (1 - t) ''wave'' a + splitOffset t ''wave'' a = 2 * 0"
    by (simp add: wave_odd)
  have "abs (splitOffset_f64 (fl (1 - t)) ''wave'' a + splitOffset_f64 t ''wave'' a - 2 * 0)
        \<le> a / 2 ^ 44"
    by (rule pair_sum_near[OF weaken_178[OF x _ e(4)] weaken_178[OF y _ e(4)] z e(4)]) simp_all
  then show ?thesis by simp
qed

lemma wave_pair_exact:
  assumes i: "i \<le> 30"
  shows "fst (topPts c r (params\<lparr>splitMode := ''wave''\<rparr>) ! (30 - i))
         = fst (bottomPts c (r + 1) (params\<lparr>splitMode := ''wave''\<rparr>) ! i)"
    and "snd (topPts c r (params\<lparr>splitMode := ''wave''\<rparr>) ! (30 - i))
         + snd (bottomPts c (r + 1) (params\<lparr>splitMode := ''wave''\<rparr>) ! i)
         = 2 * yTop r params"
    and "fst (leftPts (c + 1) r (params\<lparr>splitMode := ''wave''\<rparr>) ! (30 - i))
         + fst (rightPts c r (params\<lparr>splitMode := ''wave''\<rparr>) ! i)
         = 2 * xRight c params"
    and "snd (leftPts (c + 1) r (params\<lparr>splitMode := ''wave''\<rparr>) ! (30 - i))
         = snd (rightPts c r (params\<lparr>splitMode := ''wave''\<rparr>) ! i)"
proof -
  have z: "(0::real) \<le> 0" "(0::real) \<le> 1" by simp_all
  have t: "rev (topPts c r (params\<lparr>splitMode := ''wave''\<rparr>)) ! i
           = topPts c r (params\<lparr>splitMode := ''wave''\<rparr>) ! (30 - i)"
    by (rule rev_nth_31[OF _ i]) simp
  have l: "rev (leftPts (c + 1) r (params\<lparr>splitMode := ''wave''\<rparr>)) ! i
           = leftPts (c + 1) r (params\<lparr>splitMode := ''wave''\<rparr>) ! (30 - i)"
    by (rule rev_nth_31[OF _ i]) simp
  note w = wave_points_exact[OF i, of c r params, unfolded t l]
  show "fst (topPts c r (params\<lparr>splitMode := ''wave''\<rparr>) ! (30 - i))
         = fst (bottomPts c (r + 1) (params\<lparr>splitMode := ''wave''\<rparr>) ! i)"
    using w by simp
  show "snd (topPts c r (params\<lparr>splitMode := ''wave''\<rparr>) ! (30 - i))
         + snd (bottomPts c (r + 1) (params\<lparr>splitMode := ''wave''\<rparr>) ! i)
         = 2 * yTop r params"
    using w by simp
  show "fst (leftPts (c + 1) r (params\<lparr>splitMode := ''wave''\<rparr>) ! (30 - i))
         + fst (rightPts c r (params\<lparr>splitMode := ''wave''\<rparr>) ! i)
         = 2 * xRight c params"
    using w by simp
  show "snd (leftPts (c + 1) r (params\<lparr>splitMode := ''wave''\<rparr>) ! (30 - i))
         = snd (rightPts c r (params\<lparr>splitMode := ''wave''\<rparr>) ! i)"
    using w by simp
qed

lemma wave_pair_near:
  assumes r: "binary64_range params" and c: "0 \<le> c" "c + 1 \<le> gridX params"
    and k: "0 \<le> k" "k + 1 \<le> gridY params" and i: "i \<le> 30"
  shows "abs (fst (rev (topPts_f64 c k (params\<lparr>splitMode := ''wave''\<rparr>)) ! i)
              - fst (bottomPts_f64 c (k + 1) (params\<lparr>splitMode := ''wave''\<rparr>) ! i))
         \<le> width params / 2 ^ 44"
    and "abs (snd (rev (topPts_f64 c k (params\<lparr>splitMode := ''wave''\<rparr>)) ! i)
              + snd (bottomPts_f64 c (k + 1) (params\<lparr>splitMode := ''wave''\<rparr>) ! i)
              - 2 * yTop k params)
         \<le> height params / 2 ^ 44"
    and "abs (fst (rev (leftPts_f64 (c + 1) k (params\<lparr>splitMode := ''wave''\<rparr>)) ! i)
              + fst (rightPts_f64 c k (params\<lparr>splitMode := ''wave''\<rparr>) ! i)
              - 2 * xRight c params)
         \<le> width params / 2 ^ 44"
    and "abs (snd (rev (leftPts_f64 (c + 1) k (params\<lparr>splitMode := ''wave''\<rparr>)) ! i)
              - snd (rightPts_f64 c k (params\<lparr>splitMode := ''wave''\<rparr>) ! i))
         \<le> height params / 2 ^ 44"
proof -
  define pw where "pw = params\<lparr>splitMode := ''wave''\<rparr>"
  have rw: "binary64_range pw" using r by (simp add: pw_def)
  have cw: "0 \<le> c" "c + 1 \<le> gridX pw" using c by (simp_all add: pw_def)
  have kw: "0 \<le> k" "k + 1 \<le> gridY pw" using k by (simp_all add: pw_def)
  have c1: "0 \<le> c + 1" using c by simp
  have k1: "0 \<le> k + 1" using k by simp
  have j: "30 - i \<le> 30" by simp
  have sz: "width pw = width params" "height pw = height params" by (simp_all add: pw_def)
  have w0: "0 < width params" "0 < height params" by (rule range_sizes(3,4)[OF r])+
  have rt: "rev (topPts_f64 c k pw) ! i = topPts_f64 c k pw ! (30 - i)"
    by (rule rev_nth_31[OF _ i]) simp
  have rl: "rev (leftPts_f64 (c + 1) k pw) ! i = leftPts_f64 (c + 1) k pw ! (30 - i)"
    by (rule rev_nth_31[OF _ i]) simp
  note e = wave_pair_exact[OF i, of c k params, folded pw_def]
  note tn = topPts_near[OF rw cw kw j, unfolded sz]
  note bn = bottomPts_near[OF rw cw k1 kw(2) i, unfolded sz]
  note ln = leftPts_near[OF rw c1 cw(2) kw j, unfolded sz]
  note rn = rightPts_near[OF rw cw kw i, unfolded sz]
  show "abs (fst (rev (topPts_f64 c k (params\<lparr>splitMode := ''wave''\<rparr>)) ! i)
              - fst (bottomPts_f64 c (k + 1) (params\<lparr>splitMode := ''wave''\<rparr>) ! i))
         \<le> width params / 2 ^ 44"
    unfolding pw_def[symmetric] rt by (rule pair_near[OF tn(1) bn(1) e(1) w0(1)])
  show "abs (snd (rev (topPts_f64 c k (params\<lparr>splitMode := ''wave''\<rparr>)) ! i)
              + snd (bottomPts_f64 c (k + 1) (params\<lparr>splitMode := ''wave''\<rparr>) ! i)
              - 2 * yTop k params)
         \<le> height params / 2 ^ 44"
    unfolding pw_def[symmetric] rt by (rule pair_sum_near[OF tn(2) bn(2) e(2) w0(2)])
  show "abs (fst (rev (leftPts_f64 (c + 1) k (params\<lparr>splitMode := ''wave''\<rparr>)) ! i)
              + fst (rightPts_f64 c k (params\<lparr>splitMode := ''wave''\<rparr>) ! i)
              - 2 * xRight c params)
         \<le> width params / 2 ^ 44"
    unfolding pw_def[symmetric] rl by (rule pair_sum_near[OF ln(1) rn(1) e(3) w0(1)])
  show "abs (snd (rev (leftPts_f64 (c + 1) k (params\<lparr>splitMode := ''wave''\<rparr>)) ! i)
              - snd (rightPts_f64 c k (params\<lparr>splitMode := ''wave''\<rparr>) ! i))
         \<le> height params / 2 ^ 44"
    unfolding pw_def[symmetric] rl by (rule pair_near[OF ln(2) rn(2) e(4) w0(2)])
qed

lemma zigzag_pair_near:
  assumes r: "binary64_range params" and c: "0 \<le> c" "c + 1 \<le> gridX params"
    and k: "0 \<le> k" "k + 1 \<le> gridY params" and i: "i \<le> 30"
  shows "abs (fst (rev (topPts_f64 c k (params\<lparr>splitMode := ''zigzag''\<rparr>)) ! i)
              - fst (bottomPts_f64 c (k + 1) (params\<lparr>splitMode := ''zigzag''\<rparr>) ! i))
         \<le> width params / 2 ^ 44"
    and "abs (snd (rev (topPts_f64 c k (params\<lparr>splitMode := ''zigzag''\<rparr>)) ! i)
              - snd (bottomPts_f64 c (k + 1) (params\<lparr>splitMode := ''zigzag''\<rparr>) ! i))
         \<le> height params / 2 ^ 44"
    and "abs (fst (rev (leftPts_f64 (c + 1) k (params\<lparr>splitMode := ''zigzag''\<rparr>)) ! i)
              - fst (rightPts_f64 c k (params\<lparr>splitMode := ''zigzag''\<rparr>) ! i))
         \<le> width params / 2 ^ 44"
    and "abs (snd (rev (leftPts_f64 (c + 1) k (params\<lparr>splitMode := ''zigzag''\<rparr>)) ! i)
              - snd (rightPts_f64 c k (params\<lparr>splitMode := ''zigzag''\<rparr>) ! i))
         \<le> height params / 2 ^ 44"
proof -
  define pz where "pz = params\<lparr>splitMode := ''zigzag''\<rparr>"
  have rz: "binary64_range pz" using r by (simp add: pz_def)
  have cz: "0 \<le> c" "c + 1 \<le> gridX pz" using c by (simp_all add: pz_def)
  have kz: "0 \<le> k" "k + 1 \<le> gridY pz" using k by (simp_all add: pz_def)
  have sz: "width pz = width params" "height pz = height params" by (simp_all add: pz_def)
  note e = zigzag_edges_exact[of c k params, folded pz_def]
  note h = horizontal_pair_near[OF rz cz kz i e(1), unfolded sz]
  note v = vertical_pair_near[OF rz cz kz i e(2), unfolded sz]
  show "abs (fst (rev (topPts_f64 c k (params\<lparr>splitMode := ''zigzag''\<rparr>)) ! i)
              - fst (bottomPts_f64 c (k + 1) (params\<lparr>splitMode := ''zigzag''\<rparr>) ! i))
         \<le> width params / 2 ^ 44"
    unfolding pz_def[symmetric] by (rule h(1))
  show "abs (snd (rev (topPts_f64 c k (params\<lparr>splitMode := ''zigzag''\<rparr>)) ! i)
              - snd (bottomPts_f64 c (k + 1) (params\<lparr>splitMode := ''zigzag''\<rparr>) ! i))
         \<le> height params / 2 ^ 44"
    unfolding pz_def[symmetric] by (rule h(2))
  show "abs (fst (rev (leftPts_f64 (c + 1) k (params\<lparr>splitMode := ''zigzag''\<rparr>)) ! i)
              - fst (rightPts_f64 c k (params\<lparr>splitMode := ''zigzag''\<rparr>) ! i))
         \<le> width params / 2 ^ 44"
    unfolding pz_def[symmetric] by (rule v(1))
  show "abs (snd (rev (leftPts_f64 (c + 1) k (params\<lparr>splitMode := ''zigzag''\<rparr>)) ! i)
              - snd (rightPts_f64 c k (params\<lparr>splitMode := ''zigzag''\<rparr>) ! i))
         \<le> height params / 2 ^ 44"
    unfolding pz_def[symmetric] by (rule v(2))
qed

section \<open>The shared edge of two adjacent pieces\<close>

text \<open>
  Claim C6, amended. With \<open>splitMode = 'straight'\<close>, along every interior grid line the
  31-point sequence of one piece and the sequence of its neighbour across the line, one of
  them reversed, are the same sequence of points in exact arithmetic: the top side of a
  piece against the bottom side of the piece above it, and the left side of a piece against
  the right side of the piece to its left. The doubles the program computes for
  corresponding points agree up to rounding: for a board whose sizes lie between
  \<open>2 ^ -900\<close> and \<open>2 ^ 900\<close> and whose grid counts are at most \<open>2 ^ 53\<close>, and for every cell
  \<open>(c, r)\<close> of the grid, the \<open>x\<close> coordinates of corresponding points differ by at most
  \<open>width / 2 ^ 44\<close> and the \<open>y\<close> coordinates by at most \<open>height / 2 ^ 44\<close>. They need not be
  equal: the counterexample after the instance below exhibits two that differ.
\<close>

theorem straight_edges_coincide:
  assumes "splitMode params = ''straight''"
  shows "rev (topPts c r params) = bottomPts c (r + 1) params
       \<and> rev (leftPts (c + 1) r params) = rightPts c r params
       \<and> length (topPts c r params) = 31 \<and> length (bottomPts c (r + 1) params) = 31
       \<and> length (leftPts (c + 1) r params) = 31 \<and> length (rightPts c r params) = 31
       \<and> length (topPts_f64 c r params) = 31 \<and> length (bottomPts_f64 c (r + 1) params) = 31
       \<and> length (leftPts_f64 (c + 1) r params) = 31 \<and> length (rightPts_f64 c r params) = 31
       \<and> (binary64_range params \<and> 0 \<le> c \<and> c < gridX params \<and> 0 \<le> r \<and> r < gridY params \<longrightarrow>
            (\<forall>i\<le>30.
               abs (fst (rev (topPts_f64 c r params) ! i)
                    - fst (bottomPts_f64 c (r + 1) params ! i)) \<le> width params / 2 ^ 44
             \<and> abs (snd (rev (topPts_f64 c r params) ! i)
                    - snd (bottomPts_f64 c (r + 1) params ! i)) \<le> height params / 2 ^ 44
             \<and> abs (fst (rev (leftPts_f64 (c + 1) r params) ! i)
                    - fst (rightPts_f64 c r params ! i)) \<le> width params / 2 ^ 44
             \<and> abs (snd (rev (leftPts_f64 (c + 1) r params) ! i)
                    - snd (rightPts_f64 c r params ! i)) \<le> height params / 2 ^ 44))"
proof -
  note e = straight_edges_exact[OF assms, of c r]
  have n: "binary64_range params \<and> 0 \<le> c \<and> c < gridX params \<and> 0 \<le> r \<and> r < gridY params \<longrightarrow>
            (\<forall>i\<le>30.
               abs (fst (rev (topPts_f64 c r params) ! i)
                    - fst (bottomPts_f64 c (r + 1) params ! i)) \<le> width params / 2 ^ 44
             \<and> abs (snd (rev (topPts_f64 c r params) ! i)
                    - snd (bottomPts_f64 c (r + 1) params ! i)) \<le> height params / 2 ^ 44
             \<and> abs (fst (rev (leftPts_f64 (c + 1) r params) ! i)
                    - fst (rightPts_f64 c r params ! i)) \<le> width params / 2 ^ 44
             \<and> abs (snd (rev (leftPts_f64 (c + 1) r params) ! i)
                    - snd (rightPts_f64 c r params ! i)) \<le> height params / 2 ^ 44)"
  proof (intro impI allI)
    fix i :: nat
    assume a: "binary64_range params \<and> 0 \<le> c \<and> c < gridX params \<and> 0 \<le> r \<and> r < gridY params"
      and i: "i \<le> 30"
    have b: "binary64_range params" using a by simp
    have cc: "0 \<le> c" "c + 1 \<le> gridX params" using a by simp_all
    have rr: "0 \<le> r" "r + 1 \<le> gridY params" using a by simp_all
    note h = horizontal_pair_near[OF b cc rr i e(1)]
    note v = vertical_pair_near[OF b cc rr i e(2)]
    show "abs (fst (rev (topPts_f64 c r params) ! i)
                    - fst (bottomPts_f64 c (r + 1) params ! i)) \<le> width params / 2 ^ 44
             \<and> abs (snd (rev (topPts_f64 c r params) ! i)
                    - snd (bottomPts_f64 c (r + 1) params ! i)) \<le> height params / 2 ^ 44
             \<and> abs (fst (rev (leftPts_f64 (c + 1) r params) ! i)
                    - fst (rightPts_f64 c r params ! i)) \<le> width params / 2 ^ 44
             \<and> abs (snd (rev (leftPts_f64 (c + 1) r params) ! i)
                    - snd (rightPts_f64 c r params ! i)) \<le> height params / 2 ^ 44"
      using h v by blast
  qed
  show ?thesis by (intro conjI) (rule e n length_sides)+
qed

text \<open>
  The same at the initial parameters (a 2 by 2 grid of straight cuts on a 100 by 100 board),
  for the line between pieces \<open>(0, 0)\<close> and \<open>(0, 1)\<close>, the line between pieces \<open>(0, 0)\<close> and
  \<open>(1, 0)\<close>, and the eleventh point of each.
\<close>

theorem straight_edges_coincide_witness:
  "splitMode initialPuzzleParams = ''straight''
   \<and> binary64_range initialPuzzleParams
   \<and> rev (topPts 0 0 initialPuzzleParams) = bottomPts 0 1 initialPuzzleParams
   \<and> rev (leftPts 1 0 initialPuzzleParams) = rightPts 0 0 initialPuzzleParams
   \<and> abs (fst (rev (topPts_f64 0 0 initialPuzzleParams) ! 10)
          - fst (bottomPts_f64 0 1 initialPuzzleParams ! 10)) \<le> 100 / 2 ^ 44
   \<and> abs (snd (rev (topPts_f64 0 0 initialPuzzleParams) ! 10)
          - snd (bottomPts_f64 0 1 initialPuzzleParams ! 10)) \<le> 100 / 2 ^ 44
   \<and> abs (fst (rev (leftPts_f64 1 0 initialPuzzleParams) ! 10)
          - fst (rightPts_f64 0 0 initialPuzzleParams ! 10)) \<le> 100 / 2 ^ 44
   \<and> abs (snd (rev (leftPts_f64 1 0 initialPuzzleParams) ! 10)
          - snd (rightPts_f64 0 0 initialPuzzleParams ! 10)) \<le> 100 / 2 ^ 44"
proof -
  have h: "splitMode initialPuzzleParams = ''straight''"
    by (simp add: initialPuzzleParams_def)
  have b: "binary64_range initialPuzzleParams"
    by (simp add: binary64_range_def initialPuzzleParams_def)
  have g: "binary64_range initialPuzzleParams \<and> (0::int) \<le> 0 \<and> 0 < gridX initialPuzzleParams
           \<and> (0::int) \<le> 0 \<and> 0 < gridY initialPuzzleParams"
    using b by (simp add: initialPuzzleParams_def)
  have i: "(10::nat) \<le> 30" by simp
  have w: "width initialPuzzleParams = 100" "height initialPuzzleParams = 100"
    by (simp_all add: initialPuzzleParams_def)
  have z: "(0::int) + 1 = 1" by simp
  note t = straight_edges_coincide[OF h, of 0 0, unfolded z w]
  from t have e: "rev (topPts 0 0 initialPuzzleParams) = bottomPts 0 1 initialPuzzleParams"
    "rev (leftPts 1 0 initialPuzzleParams) = rightPts 0 0 initialPuzzleParams" by blast+
  from t g i have n:
    "abs (fst (rev (topPts_f64 0 0 initialPuzzleParams) ! 10)
          - fst (bottomPts_f64 0 1 initialPuzzleParams ! 10)) \<le> 100 / 2 ^ 44
   \<and> abs (snd (rev (topPts_f64 0 0 initialPuzzleParams) ! 10)
          - snd (bottomPts_f64 0 1 initialPuzzleParams ! 10)) \<le> 100 / 2 ^ 44
   \<and> abs (fst (rev (leftPts_f64 1 0 initialPuzzleParams) ! 10)
          - fst (rightPts_f64 0 0 initialPuzzleParams ! 10)) \<le> 100 / 2 ^ 44
   \<and> abs (snd (rev (leftPts_f64 1 0 initialPuzzleParams) ! 10)
          - snd (rightPts_f64 0 0 initialPuzzleParams ! 10)) \<le> 100 / 2 ^ 44" by blast
  show ?thesis using h b e n by blast
qed

text \<open>
  Claim C6 as it is written, for the numbers the program computes, fails at the initial
  parameters (a 2 by 2 grid of straight cuts on a 100 by 100 board). The eleventh point of
  the top side of piece \<open>(0, 0)\<close>, read backwards, has \<open>x = -33.33333333333333\<close>; the
  eleventh point of the bottom side of piece \<open>(0, 1)\<close> has \<open>x = -33.333333333333336\<close>, the
  next double. So the two sequences are not equal, and neither are the two sequences
  along the vertical line between pieces \<open>(0, 0)\<close> and \<open>(1, 0)\<close>.
\<close>

theorem straight_edges_binary64_counterexample:
  "splitMode initialPuzzleParams = ''straight''
   \<and> rev (topPts_f64 0 0 initialPuzzleParams) ! 10
       = (- (2345624805922133 / 70368744177664), 0)
   \<and> bottomPts_f64 0 1 initialPuzzleParams ! 10
       = (- (4691249611844267 / 140737488355328), 0)
   \<and> rev (topPts_f64 0 0 initialPuzzleParams) \<noteq> bottomPts_f64 0 1 initialPuzzleParams
   \<and> rev (leftPts_f64 1 0 initialPuzzleParams) \<noteq> rightPts_f64 0 0 initialPuzzleParams"
proof -
  have m: "splitMode initialPuzzleParams = ''straight''"
    by (simp add: initialPuzzleParams_def)
  have t: "rev (topPts_f64 0 0 initialPuzzleParams) ! 10
           = (- (2345624805922133 / 70368744177664), 0)"
    by (subst rev_nth_31) (simp_all add: straight_top_20)
  have b: "bottomPts_f64 0 1 initialPuzzleParams ! 10
           = (- (4691249611844267 / 140737488355328), 0)"
    by (rule straight_bottom_10)
  have l: "rev (leftPts_f64 1 0 initialPuzzleParams) ! 10
           = (0, - (2345624805922133 / 70368744177664))"
    by (subst rev_nth_31) (simp_all add: straight_left_20)
  have r: "rightPts_f64 0 0 initialPuzzleParams ! 10
           = (0, - (4691249611844267 / 140737488355328))"
    by (rule straight_right_10)
  have h: "rev (topPts_f64 0 0 initialPuzzleParams) \<noteq> bottomPts_f64 0 1 initialPuzzleParams"
  proof
    assume "rev (topPts_f64 0 0 initialPuzzleParams) = bottomPts_f64 0 1 initialPuzzleParams"
    then have "rev (topPts_f64 0 0 initialPuzzleParams) ! 10
               = bottomPts_f64 0 1 initialPuzzleParams ! 10" by simp
    then show False unfolding t b by simp
  qed
  have v: "rev (leftPts_f64 1 0 initialPuzzleParams) \<noteq> rightPts_f64 0 0 initialPuzzleParams"
  proof
    assume "rev (leftPts_f64 1 0 initialPuzzleParams) = rightPts_f64 0 0 initialPuzzleParams"
    then have "rev (leftPts_f64 1 0 initialPuzzleParams) ! 10
               = rightPts_f64 0 0 initialPuzzleParams ! 10" by simp
    then show False unfolding l r by simp
  qed
  show ?thesis using m t b h v by blast
qed

text \<open>
  Claim C7, amended. In exact arithmetic, for \<open>t\<close> in \<open>[0, 1]\<close> the zigzag offset is even
  under \<open>t \<mapsto> 1 - t\<close> and the wave offset is odd. Hence, with \<open>'zigzag'\<close>, the two pieces
  on either side of an interior grid line sample the same sequence of points (one read
  backwards); with \<open>'wave'\<close> the two sequences have the same positions along the line and
  opposite offsets, so the \<open>i\<close>-th points coincide exactly where the offset is zero, and the
  sequences differ whenever the amplitude is not zero. The doubles the program computes
  satisfy these relations up to rounding: for an amplitude \<open>a\<close> between \<open>2 ^ -1000\<close> and
  \<open>2 ^ 1000\<close>, the zigzag offsets at \<open>1 - t\<close> and at \<open>t\<close> differ by at most \<open>a / 2 ^ 44\<close>, and
  the wave offsets at \<open>1 - t\<close> and at \<open>t\<close> add up to at most \<open>a / 2 ^ 44\<close> in absolute value;
  for a board in the range of \<open>binary64_range\<close> and every cell \<open>(c, r)\<close> of the grid,
  corresponding zigzag points of the two pieces differ by at most \<open>width / 2 ^ 44\<close> in \<open>x\<close>
  and \<open>height / 2 ^ 44\<close> in \<open>y\<close>, and corresponding wave points have positions along the
  line that differ by as little and offsets from the line that cancel as closely (the
  wave bounds are for the correctly rounded sine by which \<open>Math.sin\<close> is modelled). The
  computed values need not satisfy the relations exactly: the counterexample after the
  instance below exhibits a zigzag offset that is not even.
\<close>

theorem reversal_symmetry:
  assumes "0 \<le> t" "t \<le> 1"
  shows "splitOffset (1 - t) ''zigzag'' a = splitOffset t ''zigzag'' a
       \<and> splitOffset (1 - t) ''wave'' a = - splitOffset t ''wave'' a
       \<and> rev (topPts c r (params\<lparr>splitMode := ''zigzag''\<rparr>))
            = bottomPts c (r + 1) (params\<lparr>splitMode := ''zigzag''\<rparr>)
       \<and> rev (leftPts (c + 1) r (params\<lparr>splitMode := ''zigzag''\<rparr>))
            = rightPts c r (params\<lparr>splitMode := ''zigzag''\<rparr>)
       \<and> (\<forall>i\<le>30.
            rev (topPts c r (params\<lparr>splitMode := ''wave''\<rparr>)) ! i
              = (xLeft c params + (xRight c params - xLeft c params) * (real i / 30),
                 yTop r params - splitOffset (real i / 30) ''wave'' (amplitudeOf params))
          \<and> bottomPts c (r + 1) (params\<lparr>splitMode := ''wave''\<rparr>) ! i
              = (xLeft c params + (xRight c params - xLeft c params) * (real i / 30),
                 yTop r params + splitOffset (real i / 30) ''wave'' (amplitudeOf params))
          \<and> rev (leftPts (c + 1) r (params\<lparr>splitMode := ''wave''\<rparr>)) ! i
              = (xRight c params - splitOffset (real i / 30) ''wave'' (amplitudeOf params),
                 yBottom r params + (yTop r params - yBottom r params) * (real i / 30))
          \<and> rightPts c r (params\<lparr>splitMode := ''wave''\<rparr>) ! i
              = (xRight c params + splitOffset (real i / 30) ''wave'' (amplitudeOf params),
                 yBottom r params + (yTop r params - yBottom r params) * (real i / 30))
          \<and> ((rev (topPts c r (params\<lparr>splitMode := ''wave''\<rparr>)) ! i
                = bottomPts c (r + 1) (params\<lparr>splitMode := ''wave''\<rparr>) ! i)
               = (splitOffset (real i / 30) ''wave'' (amplitudeOf params) = 0))
          \<and> ((rev (leftPts (c + 1) r (params\<lparr>splitMode := ''wave''\<rparr>)) ! i
                = rightPts c r (params\<lparr>splitMode := ''wave''\<rparr>) ! i)
               = (splitOffset (real i / 30) ''wave'' (amplitudeOf params) = 0)))
       \<and> (amplitudeOf params \<noteq> 0 \<longrightarrow>
            rev (topPts c r (params\<lparr>splitMode := ''wave''\<rparr>))
              \<noteq> bottomPts c (r + 1) (params\<lparr>splitMode := ''wave''\<rparr>)
          \<and> rev (leftPts (c + 1) r (params\<lparr>splitMode := ''wave''\<rparr>))
              \<noteq> rightPts c r (params\<lparr>splitMode := ''wave''\<rparr>))
       \<and> (1 / 2 ^ 1000 \<le> a \<and> a \<le> 2 ^ 1000 \<longrightarrow>
            abs (splitOffset_f64 (fl (1 - t)) ''zigzag'' a - splitOffset_f64 t ''zigzag'' a)
              \<le> a / 2 ^ 44
          \<and> abs (splitOffset_f64 (fl (1 - t)) ''wave'' a + splitOffset_f64 t ''wave'' a)
              \<le> a / 2 ^ 44)
       \<and> (binary64_range params \<and> 0 \<le> c \<and> c < gridX params \<and> 0 \<le> r \<and> r < gridY params \<longrightarrow>
            (\<forall>i\<le>30.
               (abs (fst (rev (topPts_f64 c r (params\<lparr>splitMode := ''zigzag''\<rparr>)) ! i)
                    - fst (bottomPts_f64 c (r + 1) (params\<lparr>splitMode := ''zigzag''\<rparr>) ! i))
                  \<le> width params / 2 ^ 44
             \<and> abs (snd (rev (topPts_f64 c r (params\<lparr>splitMode := ''zigzag''\<rparr>)) ! i)
                    - snd (bottomPts_f64 c (r + 1) (params\<lparr>splitMode := ''zigzag''\<rparr>) ! i))
                  \<le> height params / 2 ^ 44
             \<and> abs (fst (rev (leftPts_f64 (c + 1) r (params\<lparr>splitMode := ''zigzag''\<rparr>)) ! i)
                    - fst (rightPts_f64 c r (params\<lparr>splitMode := ''zigzag''\<rparr>) ! i))
                  \<le> width params / 2 ^ 44
             \<and> abs (snd (rev (leftPts_f64 (c + 1) r (params\<lparr>splitMode := ''zigzag''\<rparr>)) ! i)
                    - snd (rightPts_f64 c r (params\<lparr>splitMode := ''zigzag''\<rparr>) ! i))
                  \<le> height params / 2 ^ 44)
             \<and> (abs (fst (rev (topPts_f64 c r (params\<lparr>splitMode := ''wave''\<rparr>)) ! i)
                    - fst (bottomPts_f64 c (r + 1) (params\<lparr>splitMode := ''wave''\<rparr>) ! i))
                  \<le> width params / 2 ^ 44
             \<and> abs (snd (rev (topPts_f64 c r (params\<lparr>splitMode := ''wave''\<rparr>)) ! i)
                    + snd (bottomPts_f64 c (r + 1) (params\<lparr>splitMode := ''wave''\<rparr>) ! i)
                    - 2 * yTop r params)
                  \<le> height params / 2 ^ 44
             \<and> abs (fst (rev (leftPts_f64 (c + 1) r (params\<lparr>splitMode := ''wave''\<rparr>)) ! i)
                    + fst (rightPts_f64 c r (params\<lparr>splitMode := ''wave''\<rparr>) ! i)
                    - 2 * xRight c params)
                  \<le> width params / 2 ^ 44
             \<and> abs (snd (rev (leftPts_f64 (c + 1) r (params\<lparr>splitMode := ''wave''\<rparr>)) ! i)
                    - snd (rightPts_f64 c r (params\<lparr>splitMode := ''wave''\<rparr>) ! i))
                  \<le> height params / 2 ^ 44)))"
proof -
  note z = zigzag_edges_exact[of c r params]
  have wv: "\<forall>i\<le>30.
            rev (topPts c r (params\<lparr>splitMode := ''wave''\<rparr>)) ! i
              = (xLeft c params + (xRight c params - xLeft c params) * (real i / 30),
                 yTop r params - splitOffset (real i / 30) ''wave'' (amplitudeOf params))
          \<and> bottomPts c (r + 1) (params\<lparr>splitMode := ''wave''\<rparr>) ! i
              = (xLeft c params + (xRight c params - xLeft c params) * (real i / 30),
                 yTop r params + splitOffset (real i / 30) ''wave'' (amplitudeOf params))
          \<and> rev (leftPts (c + 1) r (params\<lparr>splitMode := ''wave''\<rparr>)) ! i
              = (xRight c params - splitOffset (real i / 30) ''wave'' (amplitudeOf params),
                 yBottom r params + (yTop r params - yBottom r params) * (real i / 30))
          \<and> rightPts c r (params\<lparr>splitMode := ''wave''\<rparr>) ! i
              = (xRight c params + splitOffset (real i / 30) ''wave'' (amplitudeOf params),
                 yBottom r params + (yTop r params - yBottom r params) * (real i / 30))
          \<and> ((rev (topPts c r (params\<lparr>splitMode := ''wave''\<rparr>)) ! i
                = bottomPts c (r + 1) (params\<lparr>splitMode := ''wave''\<rparr>) ! i)
               = (splitOffset (real i / 30) ''wave'' (amplitudeOf params) = 0))
          \<and> ((rev (leftPts (c + 1) r (params\<lparr>splitMode := ''wave''\<rparr>)) ! i
                = rightPts c r (params\<lparr>splitMode := ''wave''\<rparr>) ! i)
               = (splitOffset (real i / 30) ''wave'' (amplitudeOf params) = 0))"
  proof (intro allI impI)
    fix i :: nat assume i: "i \<le> 30"
    have p: "rev (topPts c r (params\<lparr>splitMode := ''wave''\<rparr>)) ! i
              = (xLeft c params + (xRight c params - xLeft c params) * (real i / 30),
                 yTop r params - splitOffset (real i / 30) ''wave'' (amplitudeOf params))
          \<and> bottomPts c (r + 1) (params\<lparr>splitMode := ''wave''\<rparr>) ! i
              = (xLeft c params + (xRight c params - xLeft c params) * (real i / 30),
                 yTop r params + splitOffset (real i / 30) ''wave'' (amplitudeOf params))
          \<and> rev (leftPts (c + 1) r (params\<lparr>splitMode := ''wave''\<rparr>)) ! i
              = (xRight c params - splitOffset (real i / 30) ''wave'' (amplitudeOf params),
                 yBottom r params + (yTop r params - yBottom r params) * (real i / 30))
          \<and> rightPts c r (params\<lparr>splitMode := ''wave''\<rparr>) ! i
              = (xRight c params + splitOffset (real i / 30) ''wave'' (amplitudeOf params),
                 yBottom r params + (yTop r params - yBottom r params) * (real i / 30))"
      by (rule wave_points_exact[OF i])
    have q: "((rev (topPts c r (params\<lparr>splitMode := ''wave''\<rparr>)) ! i
                = bottomPts c (r + 1) (params\<lparr>splitMode := ''wave''\<rparr>) ! i)
               = (splitOffset (real i / 30) ''wave'' (amplitudeOf params) = 0))
          \<and> ((rev (leftPts (c + 1) r (params\<lparr>splitMode := ''wave''\<rparr>)) ! i
                = rightPts c r (params\<lparr>splitMode := ''wave''\<rparr>) ! i)
               = (splitOffset (real i / 30) ''wave'' (amplitudeOf params) = 0))"
      by (rule wave_points_coincide[OF i])
    show "rev (topPts c r (params\<lparr>splitMode := ''wave''\<rparr>)) ! i
              = (xLeft c params + (xRight c params - xLeft c params) * (real i / 30),
                 yTop r params - splitOffset (real i / 30) ''wave'' (amplitudeOf params))
          \<and> bottomPts c (r + 1) (params\<lparr>splitMode := ''wave''\<rparr>) ! i
              = (xLeft c params + (xRight c params - xLeft c params) * (real i / 30),
                 yTop r params + splitOffset (real i / 30) ''wave'' (amplitudeOf params))
          \<and> rev (leftPts (c + 1) r (params\<lparr>splitMode := ''wave''\<rparr>)) ! i
              = (xRight c params - splitOffset (real i / 30) ''wave'' (amplitudeOf params),
                 yBottom r params + (yTop r params - yBottom r params) * (real i / 30))
          \<and> rightPts c r (params\<lparr>splitMode := ''wave''\<rparr>) ! i
              = (xRight c params + splitOffset (real i / 30) ''wave'' (amplitudeOf params),
                 yBottom r params + (yTop r params - yBottom r params) * (real i / 30))
          \<and> ((rev (topPts c r (params\<lparr>splitMode := ''wave''\<rparr>)) ! i
                = bottomPts c (r + 1) (params\<lparr>splitMode := ''wave''\<rparr>) ! i)
               = (splitOffset (real i / 30) ''wave'' (amplitudeOf params) = 0))
          \<and> ((rev (leftPts (c + 1) r (params\<lparr>splitMode := ''wave''\<rparr>)) ! i
                = rightPts c r (params\<lparr>splitMode := ''wave''\<rparr>) ! i)
               = (splitOffset (real i / 30) ''wave'' (amplitudeOf params) = 0))"
      using p q by blast
  qed
  have ne: "amplitudeOf params \<noteq> 0 \<longrightarrow>
            rev (topPts c r (params\<lparr>splitMode := ''wave''\<rparr>))
              \<noteq> bottomPts c (r + 1) (params\<lparr>splitMode := ''wave''\<rparr>)
          \<and> rev (leftPts (c + 1) r (params\<lparr>splitMode := ''wave''\<rparr>))
              \<noteq> rightPts c r (params\<lparr>splitMode := ''wave''\<rparr>)"
    using wave_edges_differ[of params c r] by blast
  have idn: "1 / 2 ^ 1000 \<le> a \<and> a \<le> 2 ^ 1000 \<longrightarrow>
            abs (splitOffset_f64 (fl (1 - t)) ''zigzag'' a - splitOffset_f64 t ''zigzag'' a)
              \<le> a / 2 ^ 44
          \<and> abs (splitOffset_f64 (fl (1 - t)) ''wave'' a + splitOffset_f64 t ''wave'' a)
              \<le> a / 2 ^ 44"
    using zigzag_identity_near[OF assms, of a] wave_identity_near[OF assms, of a] by blast
  have pn: "binary64_range params \<and> 0 \<le> c \<and> c < gridX params \<and> 0 \<le> r \<and> r < gridY params \<longrightarrow>
            (\<forall>i\<le>30.
               (abs (fst (rev (topPts_f64 c r (params\<lparr>splitMode := ''zigzag''\<rparr>)) ! i)
                    - fst (bottomPts_f64 c (r + 1) (params\<lparr>splitMode := ''zigzag''\<rparr>) ! i))
                  \<le> width params / 2 ^ 44
             \<and> abs (snd (rev (topPts_f64 c r (params\<lparr>splitMode := ''zigzag''\<rparr>)) ! i)
                    - snd (bottomPts_f64 c (r + 1) (params\<lparr>splitMode := ''zigzag''\<rparr>) ! i))
                  \<le> height params / 2 ^ 44
             \<and> abs (fst (rev (leftPts_f64 (c + 1) r (params\<lparr>splitMode := ''zigzag''\<rparr>)) ! i)
                    - fst (rightPts_f64 c r (params\<lparr>splitMode := ''zigzag''\<rparr>) ! i))
                  \<le> width params / 2 ^ 44
             \<and> abs (snd (rev (leftPts_f64 (c + 1) r (params\<lparr>splitMode := ''zigzag''\<rparr>)) ! i)
                    - snd (rightPts_f64 c r (params\<lparr>splitMode := ''zigzag''\<rparr>) ! i))
                  \<le> height params / 2 ^ 44)
             \<and> (abs (fst (rev (topPts_f64 c r (params\<lparr>splitMode := ''wave''\<rparr>)) ! i)
                    - fst (bottomPts_f64 c (r + 1) (params\<lparr>splitMode := ''wave''\<rparr>) ! i))
                  \<le> width params / 2 ^ 44
             \<and> abs (snd (rev (topPts_f64 c r (params\<lparr>splitMode := ''wave''\<rparr>)) ! i)
                    + snd (bottomPts_f64 c (r + 1) (params\<lparr>splitMode := ''wave''\<rparr>) ! i)
                    - 2 * yTop r params)
                  \<le> height params / 2 ^ 44
             \<and> abs (fst (rev (leftPts_f64 (c + 1) r (params\<lparr>splitMode := ''wave''\<rparr>)) ! i)
                    + fst (rightPts_f64 c r (params\<lparr>splitMode := ''wave''\<rparr>) ! i)
                    - 2 * xRight c params)
                  \<le> width params / 2 ^ 44
             \<and> abs (snd (rev (leftPts_f64 (c + 1) r (params\<lparr>splitMode := ''wave''\<rparr>)) ! i)
                    - snd (rightPts_f64 c r (params\<lparr>splitMode := ''wave''\<rparr>) ! i))
                  \<le> height params / 2 ^ 44))"
  proof (intro impI allI)
    fix i :: nat
    assume g: "binary64_range params \<and> 0 \<le> c \<and> c < gridX params \<and> 0 \<le> r \<and> r < gridY params"
      and i: "i \<le> 30"
    have b: "binary64_range params" using g by simp
    have cc: "0 \<le> c" "c + 1 \<le> gridX params" using g by simp_all
    have rr: "0 \<le> r" "r + 1 \<le> gridY params" using g by simp_all
    note zp = zigzag_pair_near[OF b cc rr i]
    note wp = wave_pair_near[OF b cc rr i]
    show "(abs (fst (rev (topPts_f64 c r (params\<lparr>splitMode := ''zigzag''\<rparr>)) ! i)
                    - fst (bottomPts_f64 c (r + 1) (params\<lparr>splitMode := ''zigzag''\<rparr>) ! i))
                  \<le> width params / 2 ^ 44
             \<and> abs (snd (rev (topPts_f64 c r (params\<lparr>splitMode := ''zigzag''\<rparr>)) ! i)
                    - snd (bottomPts_f64 c (r + 1) (params\<lparr>splitMode := ''zigzag''\<rparr>) ! i))
                  \<le> height params / 2 ^ 44
             \<and> abs (fst (rev (leftPts_f64 (c + 1) r (params\<lparr>splitMode := ''zigzag''\<rparr>)) ! i)
                    - fst (rightPts_f64 c r (params\<lparr>splitMode := ''zigzag''\<rparr>) ! i))
                  \<le> width params / 2 ^ 44
             \<and> abs (snd (rev (leftPts_f64 (c + 1) r (params\<lparr>splitMode := ''zigzag''\<rparr>)) ! i)
                    - snd (rightPts_f64 c r (params\<lparr>splitMode := ''zigzag''\<rparr>) ! i))
                  \<le> height params / 2 ^ 44)
             \<and> (abs (fst (rev (topPts_f64 c r (params\<lparr>splitMode := ''wave''\<rparr>)) ! i)
                    - fst (bottomPts_f64 c (r + 1) (params\<lparr>splitMode := ''wave''\<rparr>) ! i))
                  \<le> width params / 2 ^ 44
             \<and> abs (snd (rev (topPts_f64 c r (params\<lparr>splitMode := ''wave''\<rparr>)) ! i)
                    + snd (bottomPts_f64 c (r + 1) (params\<lparr>splitMode := ''wave''\<rparr>) ! i)
                    - 2 * yTop r params)
                  \<le> height params / 2 ^ 44
             \<and> abs (fst (rev (leftPts_f64 (c + 1) r (params\<lparr>splitMode := ''wave''\<rparr>)) ! i)
                    + fst (rightPts_f64 c r (params\<lparr>splitMode := ''wave''\<rparr>) ! i)
                    - 2 * xRight c params)
                  \<le> width params / 2 ^ 44
             \<and> abs (snd (rev (leftPts_f64 (c + 1) r (params\<lparr>splitMode := ''wave''\<rparr>)) ! i)
                    - snd (rightPts_f64 c r (params\<lparr>splitMode := ''wave''\<rparr>) ! i))
                  \<le> height params / 2 ^ 44)"
      by (intro conjI) (rule zp wp)+
  qed
  have ev: "splitOffset (1 - t) ''zigzag'' a = splitOffset t ''zigzag'' a"
    by (rule zigzag_even[OF assms])
  have od: "splitOffset (1 - t) ''wave'' a = - splitOffset t ''wave'' a"
    by (rule wave_odd)
  show ?thesis by (intro conjI) (rule ev od z wv ne idn pn)+
qed

text \<open>
  An instance at \<open>t = 1/4\<close> and amplitude \<open>4\<close>, and at the initial 2 by 2 grid on a 100 by
  100 board, for the line between pieces \<open>(0, 0)\<close> and \<open>(0, 1)\<close> and the second point of each
  sequence.
\<close>

theorem reversal_symmetry_witness:
  "splitOffset (1 - 1 / 4) ''zigzag'' 4 = splitOffset (1 / 4) ''zigzag'' 4
   \<and> splitOffset (1 - 1 / 4) ''wave'' 4 = - splitOffset (1 / 4) ''wave'' 4
   \<and> rev (topPts 0 0 (initialPuzzleParams\<lparr>splitMode := ''zigzag''\<rparr>))
        = bottomPts 0 1 (initialPuzzleParams\<lparr>splitMode := ''zigzag''\<rparr>)
   \<and> rev (topPts 0 0 (initialPuzzleParams\<lparr>splitMode := ''wave''\<rparr>))
        \<noteq> bottomPts 0 1 (initialPuzzleParams\<lparr>splitMode := ''wave''\<rparr>)
   \<and> abs (splitOffset_f64 (fl (1 - 1 / 4)) ''zigzag'' 4 - splitOffset_f64 (1 / 4) ''zigzag'' 4)
        \<le> 4 / 2 ^ 44
   \<and> abs (splitOffset_f64 (fl (1 - 1 / 4)) ''wave'' 4 + splitOffset_f64 (1 / 4) ''wave'' 4)
        \<le> 4 / 2 ^ 44
   \<and> abs (snd (rev (topPts_f64 0 0 (initialPuzzleParams\<lparr>splitMode := ''zigzag''\<rparr>)) ! 1)
          - snd (bottomPts_f64 0 1 (initialPuzzleParams\<lparr>splitMode := ''zigzag''\<rparr>) ! 1))
        \<le> 100 / 2 ^ 44
   \<and> abs (snd (rev (topPts_f64 0 0 (initialPuzzleParams\<lparr>splitMode := ''wave''\<rparr>)) ! 1)
          + snd (bottomPts_f64 0 1 (initialPuzzleParams\<lparr>splitMode := ''wave''\<rparr>) ! 1)
          - 2 * yTop 0 initialPuzzleParams)
        \<le> 100 / 2 ^ 44"
proof -
  have h: "(0::real) \<le> 1 / 4" "(1::real) / 4 \<le> 1" by simp_all
  have a: "amplitudeOf initialPuzzleParams \<noteq> 0" by (simp add: initial_amplitude)
  have am: "1 / 2 ^ 1000 \<le> (4::real) \<and> (4::real) \<le> 2 ^ 1000" by simp
  have g: "binary64_range initialPuzzleParams \<and> (0::int) \<le> 0 \<and> 0 < gridX initialPuzzleParams
           \<and> (0::int) \<le> 0 \<and> 0 < gridY initialPuzzleParams"
    by (simp add: binary64_range_def initialPuzzleParams_def)
  have i: "(1::nat) \<le> 30" by simp
  have w: "width initialPuzzleParams = 100" "height initialPuzzleParams = 100"
    by (simp_all add: initialPuzzleParams_def)
  have z: "(0::int) + 1 = 1" by simp
  note t = reversal_symmetry[OF h, of 4 0 0 initialPuzzleParams, unfolded z w]
  from t have e: "splitOffset (1 - 1 / 4) ''zigzag'' 4 = splitOffset (1 / 4) ''zigzag'' 4"
    "splitOffset (1 - 1 / 4) ''wave'' 4 = - splitOffset (1 / 4) ''wave'' 4"
    "rev (topPts 0 0 (initialPuzzleParams\<lparr>splitMode := ''zigzag''\<rparr>))
        = bottomPts 0 1 (initialPuzzleParams\<lparr>splitMode := ''zigzag''\<rparr>)" by blast+
  from t a have d: "rev (topPts 0 0 (initialPuzzleParams\<lparr>splitMode := ''wave''\<rparr>))
        \<noteq> bottomPts 0 1 (initialPuzzleParams\<lparr>splitMode := ''wave''\<rparr>)" by blast
  from t am have n1:
    "abs (splitOffset_f64 (fl (1 - 1 / 4)) ''zigzag'' 4 - splitOffset_f64 (1 / 4) ''zigzag'' 4)
        \<le> 4 / 2 ^ 44"
    "abs (splitOffset_f64 (fl (1 - 1 / 4)) ''wave'' 4 + splitOffset_f64 (1 / 4) ''wave'' 4)
        \<le> 4 / 2 ^ 44" by blast+
  from t g i have n2:
    "abs (snd (rev (topPts_f64 0 0 (initialPuzzleParams\<lparr>splitMode := ''zigzag''\<rparr>)) ! 1)
          - snd (bottomPts_f64 0 1 (initialPuzzleParams\<lparr>splitMode := ''zigzag''\<rparr>) ! 1))
        \<le> 100 / 2 ^ 44"
    "abs (snd (rev (topPts_f64 0 0 (initialPuzzleParams\<lparr>splitMode := ''wave''\<rparr>)) ! 1)
          + snd (bottomPts_f64 0 1 (initialPuzzleParams\<lparr>splitMode := ''wave''\<rparr>) ! 1)
          - 2 * yTop 0 initialPuzzleParams)
        \<le> 100 / 2 ^ 44" by blast+
  show ?thesis using e d n1 n2 by blast
qed

text \<open>
  Claim C7 as it is written, for the numbers the program computes, fails at \<open>t = 1/30\<close>
  with amplitude \<open>4\<close>: the zigzag offset is \<open>0.13333333333333286\<close> at \<open>1 - t\<close> and
  \<open>0.1333333333333333\<close> at \<open>t\<close>. On the initial grid cut with \<open>'zigzag'\<close>, the second point
  of the top side of piece \<open>(0, 0)\<close>, read backwards, and the second point of the bottom
  side of piece \<open>(0, 1)\<close> have these two offsets as their \<open>y\<close>, so the two sequences are
  not equal.
\<close>

theorem zigzag_reversal_binary64_counterexample:
  "splitOffset_f64 (fl (1 - fl (1 / 30))) ''zigzag'' 4 = 18764998447377 / 140737488355328
   \<and> splitOffset_f64 (fl (1 / 30)) ''zigzag'' 4 = 300239975158033 / 2251799813685248
   \<and> splitOffset_f64 (fl (1 - fl (1 / 30))) ''zigzag'' 4
       \<noteq> splitOffset_f64 (fl (1 / 30)) ''zigzag'' 4
   \<and> rev (topPts_f64 0 0 (initialPuzzleParams\<lparr>splitMode := ''zigzag''\<rparr>)) ! 1
       = (- (6802311937174187 / 140737488355328), 18764998447377 / 140737488355328)
   \<and> bottomPts_f64 0 1 (initialPuzzleParams\<lparr>splitMode := ''zigzag''\<rparr>) ! 1
       = (- (6802311937174187 / 140737488355328), 300239975158033 / 2251799813685248)
   \<and> rev (topPts_f64 0 0 (initialPuzzleParams\<lparr>splitMode := ''zigzag''\<rparr>))
       \<noteq> bottomPts_f64 0 1 (initialPuzzleParams\<lparr>splitMode := ''zigzag''\<rparr>)"
proof -
  have a: "splitOffset_f64 (fl (1 - fl (1 / 30))) ''zigzag'' 4
           = 18764998447377 / 140737488355328"
    by (simp add: fl_t1 fl_u zigzag_near_one)
  have b: "splitOffset_f64 (fl (1 / 30)) ''zigzag'' 4 = 300239975158033 / 2251799813685248"
    by (simp add: fl_t1 zigzag_near_zero)
  have ne: "splitOffset_f64 (fl (1 - fl (1 / 30))) ''zigzag'' 4
            \<noteq> splitOffset_f64 (fl (1 / 30)) ''zigzag'' 4"
    unfolding a b by simp
  have t: "rev (topPts_f64 0 0 (initialPuzzleParams\<lparr>splitMode := ''zigzag''\<rparr>)) ! 1
           = (- (6802311937174187 / 140737488355328), 18764998447377 / 140737488355328)"
    by (subst rev_nth_31) (simp_all add: zigzag_top_29)
  have bt: "bottomPts_f64 0 1 (initialPuzzleParams\<lparr>splitMode := ''zigzag''\<rparr>) ! 1
           = (- (6802311937174187 / 140737488355328), 300239975158033 / 2251799813685248)"
    by (rule zigzag_bottom_1)
  have h: "rev (topPts_f64 0 0 (initialPuzzleParams\<lparr>splitMode := ''zigzag''\<rparr>))
           \<noteq> bottomPts_f64 0 1 (initialPuzzleParams\<lparr>splitMode := ''zigzag''\<rparr>)"
  proof
    assume "rev (topPts_f64 0 0 (initialPuzzleParams\<lparr>splitMode := ''zigzag''\<rparr>))
            = bottomPts_f64 0 1 (initialPuzzleParams\<lparr>splitMode := ''zigzag''\<rparr>)"
    then have "rev (topPts_f64 0 0 (initialPuzzleParams\<lparr>splitMode := ''zigzag''\<rparr>)) ! 1
               = bottomPts_f64 0 1 (initialPuzzleParams\<lparr>splitMode := ''zigzag''\<rparr>) ! 1"
      by simp
    then show False unfolding t bt by simp
  qed
  show ?thesis using a b ne t bt h by blast
qed

section \<open>The adjacency index\<close>

lemma fold_push_upto:
  "fold (\<lambda>c (pieces, idx). (pieces @ [f c idx], idx + 1)) [a..b] (ps, i0)
     = (ps @ map (\<lambda>c. f c (i0 + (c - a))) [a..b], i0 + int (length [a..b]))"
proof (induction a b arbitrary: ps i0 rule: upto.induct)
  case (1 i j)
  show ?case
  proof (cases "i \<le> j")
    case True
    have m: "map (\<lambda>c. f c (i0 + 1 + (c - (i + 1)))) [i + 1..j] = map (\<lambda>c. f c (i0 + (c - i))) [i + 1..j]"
      by (rule map_cong) (auto simp: algebra_simps)
    show ?thesis
      using True "1.IH"[OF True, of "ps @ [f i i0]" "i0 + 1"]
      by (subst (1 2 3) upto_rec1[OF True]) (simp add: m)
  next
    case False
    then show ?thesis by simp
  qed
qed

lemma colLoop_eq:
  "colLoop r params (ps, i0)
     = (ps @ map (\<lambda>c. pieceAt c r (i0 + c) params) [0..gridX params - 1],
        i0 + int (length [0..gridX params - 1]))"
  unfolding colLoop_def using fold_push_upto[of "\<lambda>c idx. pieceAt c r idx params" 0] by simp


lemma map_upto_shift:
  "map (\<lambda>c. g (d + c)) [0..n] = map g [d..d + n]"
proof (rule nth_equalityI)
  show "length (map (\<lambda>c. g (d + c)) [0..n]) = length (map g [d..d + n])" by simp
next
  fix i assume "i < length (map (\<lambda>c. g (d + c)) [0..n])"
  then have i: "int i \<le> n" by simp
  then have "[0..n] ! i = int i" "[d..d + n] ! i = d + int i" by (simp_all add: nth_upto)
  moreover have "i < length [0..n]" "i < length [d..d + n]" using i by simp_all
  ultimately show "map (\<lambda>c. g (d + c)) [0..n] ! i = map g [d..d + n] ! i"
    by (simp only: nth_map)
qed

lemma row_block:
  assumes "1 \<le> gridX params" "0 \<le> r"
  shows "map (\<lambda>c. pieceAt c r (r * gridX params + c) params) [0..gridX params - 1]
       = map (\<lambda>k. pieceAt (k mod gridX params) (k div gridX params) k params)
           [r * gridX params..r * gridX params + (gridX params - 1)]"
proof -
  have "map (\<lambda>c. pieceAt c r (r * gridX params + c) params) [0..gridX params - 1]
      = map (\<lambda>c. pieceAt ((r * gridX params + c) mod gridX params)
                     ((r * gridX params + c) div gridX params) (r * gridX params + c) params)
          [0..gridX params - 1]"
    using assms by (intro map_cong) auto
  also have "\<dots> = map (\<lambda>k. pieceAt (k mod gridX params) (k div gridX params) k params)
           [r * gridX params..r * gridX params + (gridX params - 1)]"
    by (rule map_upto_shift)
  finally show ?thesis .
qed

lemma rowLoop_eq:
  assumes "1 \<le> gridX params"
  shows "0 \<le> a \<Longrightarrow> a \<le> b + 1 \<Longrightarrow>
     fold (\<lambda>r st. colLoop r params st) [a..b]
       (map (\<lambda>k. pieceAt (k mod gridX params) (k div gridX params) k params)
          [0..a * gridX params - 1], a * gridX params)
     = (map (\<lambda>k. pieceAt (k mod gridX params) (k div gridX params) k params)
          [0..(b + 1) * gridX params - 1], (b + 1) * gridX params)"
proof (induction a b rule: upto.induct)
  case (1 i j)
  let ?gx = "gridX params"
  let ?F = "\<lambda>k. pieceAt (k mod ?gx) (k div ?gx) k params"
  show ?case
  proof (cases "i \<le> j")
    case True
    have len: "int (length [0..?gx - 1]) = ?gx" using assms by simp
    have lo: "0 \<le> i * ?gx" using "1.prems" assms by simp
    have hi: "i * ?gx \<le> (i + 1) * ?gx - 1" using assms by (simp add: algebra_simps)
    have split: "[0..(i + 1) * ?gx - 1] = [0..i * ?gx - 1] @ [i * ?gx..(i + 1) * ?gx - 1]"
      by (rule upto_split1[OF lo hi])
    have e: "i * ?gx + (?gx - 1) = (i + 1) * ?gx - 1" by (simp add: algebra_simps)
    have step: "colLoop i params (map ?F [0..i * ?gx - 1], i * ?gx)
                = (map ?F [0..(i + 1) * ?gx - 1], (i + 1) * ?gx)"
      unfolding colLoop_eq len row_block[OF assms "1.prems"(1)] split e
      by (simp add: algebra_simps)
    have "fold (\<lambda>r st. colLoop r params st) [i..j] (map ?F [0..i * ?gx - 1], i * ?gx)
        = fold (\<lambda>r st. colLoop r params st) [i + 1..j] (map ?F [0..(i + 1) * ?gx - 1], (i + 1) * ?gx)"
      by (subst upto_rec1[OF True]) (simp add: step)
    also have "\<dots> = (map ?F [0..(j + 1) * ?gx - 1], (j + 1) * ?gx)"
      using "1.IH"[OF True] "1.prems" True by simp
    finally show ?thesis .
  next
    case False
    then have "j + 1 = i" using "1.prems" by simp
    then show ?thesis using False by simp
  qed
qed

lemma generateAllPieces_eq:
  assumes "1 \<le> gridX params" "0 \<le> gridY params"
  shows "generateAllPieces params
       = map (\<lambda>k. pieceAt (k mod gridX params) (k div gridX params) k params)
           [0..gridX params * gridY params - 1]"
proof -
  have "fold (\<lambda>r st. colLoop r params st) [0..gridY params - 1] ([], 0)
      = (map (\<lambda>k. pieceAt (k mod gridX params) (k div gridX params) k params)
           [0..(gridY params - 1 + 1) * gridX params - 1], (gridY params - 1 + 1) * gridX params)"
    using rowLoop_eq[OF assms(1), of 0 "gridY params - 1"] assms(2) by simp
  then show ?thesis by (simp add: generateAllPieces_def mult.commute)
qed

lemma length_generateAllPieces:
  assumes "1 \<le> gridX params" "0 \<le> gridY params"
  shows "length (generateAllPieces params) = nat (gridX params * gridY params)"
  by (simp add: generateAllPieces_eq[OF assms])

lemma nth_generateAllPieces:
  assumes "1 \<le> gridX params" "0 \<le> gridY params" "0 \<le> k" "k < gridX params * gridY params"
  shows "generateAllPieces params ! nat k
       = pieceAt (k mod gridX params) (k div gridX params) k params"
proof -
  have "nat k < length [0..gridX params * gridY params - 1]" using assms by simp
  moreover have "[0..gridX params * gridY params - 1] ! nat k = k"
    using assms by (simp add: nth_upto)
  ultimately show ?thesis by (simp add: generateAllPieces_eq[OF assms(1,2)])
qed

lemma js_at_generateAllPieces:
  assumes "1 \<le> gridX params" "0 \<le> gridY params" "0 \<le> k" "k < gridX params * gridY params"
  shows "js_at (generateAllPieces params) k
       = Some (pieceAt (k mod gridX params) (k div gridX params) k params)"
  using assms by (simp add: js_at_def length_generateAllPieces nth_generateAllPieces)


lemma pieceAt_simps [simp]:
  "col (pieceAt c r i params) = c"
  "row (pieceAt c r i params) = r"
  "index (pieceAt c r i params) = i"
  "centerX (pieceAt c r i params) = pieceCenterX c params"
  "centerY (pieceAt c r i params) = pieceCenterY r params"
  "leftN (neighbors (pieceAt c r i params)) = (if c > 0 then r * gridX params + (c - 1) else -1)"
  "rightN (neighbors (pieceAt c r i params))
     = (if c < gridX params - 1 then r * gridX params + (c + 1) else -1)"
  "bottomN (neighbors (pieceAt c r i params)) = (if r > 0 then (r - 1) * gridX params + c else -1)"
  "topN (neighbors (pieceAt c r i params))
     = (if r < gridY params - 1 then (r + 1) * gridX params + c else -1)"
  by (simp_all add: pieceAt_def createPieceGeometry_def createPieceShape_def Let_def)

lemma grid_left: "1 \<le> g \<Longrightarrow> 0 \<le> k \<Longrightarrow>
  (if k mod g > 0 then (k div g) * g + (k mod g - 1) else -1) = (if k mod g > 0 then k - 1 else (-1::int))"
  by (simp add: algebra_simps)

lemma grid_right: "(if k mod g < g - 1 then (k div g) * g + (k mod g + 1) else -1)
     = (if k mod g < g - 1 then k + 1 else (-1::int))"
  by (simp add: algebra_simps)

lemma grid_bottom: "(if k div g > 0 then (k div g - 1) * g + k mod g else -1)
     = (if k div g > 0 then k - g else (-1::int))"
proof -
  have "(k div g - 1) * g + k mod g = (k div g) * g + k mod g - g" by (simp add: algebra_simps)
  then show ?thesis by simp
qed

lemma grid_top: "(if k div g < h - 1 then (k div g + 1) * g + k mod g else -1)
     = (if k div g < h - 1 then k + g else (-1::int))"
proof -
  have "(k div g + 1) * g + k mod g = (k div g) * g + k mod g + g" by (simp add: algebra_simps)
  then show ?thesis by simp
qed

lemma mod_succ_pos:
  assumes "1 \<le> (g::int)" "0 \<le> k"
  shows "(k mod g < g - 1) = (0 < (k + 1) mod g)"
proof (cases "k mod g < g - 1")
  case True
  have "0 \<le> k mod g" using assms by simp
  then have "(k mod g + 1) mod g = k mod g + 1" using True by (simp add: mod_pos_pos_trivial)
  then have "(k + 1) mod g = k mod g + 1" by (metis mod_add_left_eq)
  then show ?thesis using True \<open>0 \<le> k mod g\<close> by simp
next
  case False
  have "k mod g < g" using assms by simp
  then have "k mod g = g - 1" using False by simp
  then have "(k mod g + 1) mod g = 0" by simp
  then have "(k + 1) mod g = 0" by (metis mod_add_left_eq)
  then show ?thesis using False by simp
qed

lemma div_row_bound:
  assumes "1 \<le> (g::int)" "0 \<le> k"
  shows "(k div g < h) = (k < g * h)"
proof
  assume "k div g < h"
  then have "k div g + 1 \<le> h" by simp
  then have a: "g * (k div g + 1) \<le> g * h" using assms(1) by (intro mult_left_mono) auto
  have b: "g * (k div g) + k mod g = k" by simp
  have c: "k mod g < g" using assms(1) by simp
  have d: "g * (k div g + 1) = g * (k div g) + g" by (simp add: algebra_simps)
  from a b c d show "k < g * h" by linarith
next
  assume lt: "k < g * h"
  show "k div g < h"
  proof (rule ccontr)
    assume "\<not> k div g < h"
    then have "h \<le> k div g" by simp
    then have a: "g * h \<le> g * (k div g)" using assms(1) by (intro mult_left_mono) auto
    have b: "g * (k div g) + k mod g = k" by simp
    have c: "0 \<le> k mod g" using assms(1) by simp
    from a b c lt show False by linarith
  qed
qed

text \<open>
  Claim C5. For a grid of at least one column and one row, \<open>generateAllPieces\<close> returns
  \<open>gridX * gridY\<close> pieces in row-major order: the piece at position \<open>i\<close> carries
  \<open>index = i = row * gridX + col\<close>. For all pieces \<open>i\<close> and \<open>j\<close>, \<open>j\<close> is the right
  neighbour of \<open>i\<close> exactly when \<open>i\<close> is the left neighbour of \<open>j\<close>, and \<open>j\<close> is the top
  neighbour of \<open>i\<close> exactly when \<open>i\<close> is the bottom neighbour of \<open>j\<close>. A side on the border
  of the grid carries \<open>-1\<close>, any other side the index of the piece across it.
\<close>

theorem neighbors_symmetric:
  assumes "1 \<le> gridX params" "1 \<le> gridY params"
    and "0 \<le> i" "i < gridX params * gridY params"
    and "0 \<le> j" "j < gridX params * gridY params"
  shows "length (generateAllPieces params) = nat (gridX params * gridY params)
       \<and> index (generateAllPieces params ! nat i) = i
       \<and> col (generateAllPieces params ! nat i) = i mod gridX params
       \<and> row (generateAllPieces params ! nat i) = i div gridX params
       \<and> index (generateAllPieces params ! nat i)
           = row (generateAllPieces params ! nat i) * gridX params
             + col (generateAllPieces params ! nat i)
       \<and> ((rightN (neighbors (generateAllPieces params ! nat i)) = j)
            = (leftN (neighbors (generateAllPieces params ! nat j)) = i))
       \<and> ((topN (neighbors (generateAllPieces params ! nat i)) = j)
            = (bottomN (neighbors (generateAllPieces params ! nat j)) = i))
       \<and> (leftN (neighbors (generateAllPieces params ! nat i))
            = (if col (generateAllPieces params ! nat i) = 0 then -1 else i - 1))
       \<and> (rightN (neighbors (generateAllPieces params ! nat i))
            = (if col (generateAllPieces params ! nat i) = gridX params - 1 then -1 else i + 1))
       \<and> (bottomN (neighbors (generateAllPieces params ! nat i))
            = (if row (generateAllPieces params ! nat i) = 0 then -1 else i - gridX params))
       \<and> (topN (neighbors (generateAllPieces params ! nat i))
            = (if row (generateAllPieces params ! nat i) = gridY params - 1 then -1
               else i + gridX params))"
proof -
  let ?gx = "gridX params" and ?gy = "gridY params"
  have gy0: "0 \<le> ?gy" using assms(2) by simp
  note pi = nth_generateAllPieces[OF assms(1) gy0 assms(3,4)]
  note pj = nth_generateAllPieces[OF assms(1) gy0 assms(5,6)]
  have mi: "0 \<le> i mod ?gx" "i mod ?gx < ?gx" and mj: "0 \<le> j mod ?gx" "j mod ?gx < ?gx"
    using assms(1) by simp_all
  have di: "0 \<le> i div ?gx" "i div ?gx < ?gy" and dj: "0 \<le> j div ?gx" "j div ?gx < ?gy"
    using assms by (simp_all add: div_row_bound pos_imp_zdiv_nonneg_iff)
  have idx: "i div ?gx * ?gx + i mod ?gx = i" by simp
  have lr: "(rightN (neighbors (generateAllPieces params ! nat i)) = j)
            = (leftN (neighbors (generateAllPieces params ! nat j)) = i)"
  proof -
    have "(rightN (neighbors (generateAllPieces params ! nat i)) = j)
        = (i mod ?gx < ?gx - 1 \<and> j = i + 1)"
      unfolding pi pieceAt_simps grid_right using assms(5) by auto
    also have "\<dots> = (0 < j mod ?gx \<and> i = j - 1)"
      using mod_succ_pos[OF assms(1,3)] by auto
    also have "\<dots> = (leftN (neighbors (generateAllPieces params ! nat j)) = i)"
      unfolding pj pieceAt_simps grid_left[OF assms(1,5)] using assms(3) by auto
    finally show ?thesis .
  qed
  have tb: "(topN (neighbors (generateAllPieces params ! nat i)) = j)
            = (bottomN (neighbors (generateAllPieces params ! nat j)) = i)"
  proof -
    have "(topN (neighbors (generateAllPieces params ! nat i)) = j)
        = (i div ?gx < ?gy - 1 \<and> j = i + ?gx)"
      unfolding pi pieceAt_simps grid_top using assms(5) by auto
    also have "\<dots> = (0 < j div ?gx \<and> i = j - ?gx)"
    proof -
      have "(i + ?gx) div ?gx = i div ?gx + 1" using assms(1) by simp
      then show ?thesis using di dj by auto
    qed
    also have "\<dots> = (bottomN (neighbors (generateAllPieces params ! nat j)) = i)"
      unfolding pj pieceAt_simps grid_bottom using assms(3) by auto
    finally show ?thesis .
  qed
  have l: "leftN (neighbors (generateAllPieces params ! nat i))
            = (if col (generateAllPieces params ! nat i) = 0 then -1 else i - 1)"
    unfolding pi pieceAt_simps grid_left[OF assms(1,3)] using mi by auto
  have r: "rightN (neighbors (generateAllPieces params ! nat i))
            = (if col (generateAllPieces params ! nat i) = gridX params - 1 then -1 else i + 1)"
    unfolding pi pieceAt_simps grid_right using mi by auto
  have b: "bottomN (neighbors (generateAllPieces params ! nat i))
            = (if row (generateAllPieces params ! nat i) = 0 then -1 else i - gridX params)"
    unfolding pi pieceAt_simps grid_bottom using di by auto
  have t: "topN (neighbors (generateAllPieces params ! nat i))
            = (if row (generateAllPieces params ! nat i) = gridY params - 1 then -1
               else i + gridX params)"
    unfolding pi pieceAt_simps grid_top using di by auto
  have basic: "index (generateAllPieces params ! nat i) = i"
    "col (generateAllPieces params ! nat i) = i mod gridX params"
    "row (generateAllPieces params ! nat i) = i div gridX params"
    unfolding pi by simp_all
  show ?thesis
    using length_generateAllPieces[OF assms(1) gy0] basic idx lr tb l r b t
    by (intro conjI) (simp_all only:)
qed

section \<open>The snap-match engine\<close>

lemma js_rem_decompose:
  assumes "0 \<le> w" "w < b" "0 \<le> k" "0 < b"
  shows "js_rem (w + b * of_int k) b = w"
proof -
  have q: "(w + b * of_int k) / b = w / b + of_int k" using assms(4) by (simp add: field_simps)
  have w: "0 \<le> w / b" "w / b < 1" using assms by simp_all
  have "\<lfloor>w / b + of_int k\<rfloor> = k" using w by (intro floor_unique) auto
  moreover have "0 \<le> w / b + of_int k" using w assms(3) by simp
  ultimately show ?thesis unfolding js_rem_def q by simp
qed

lemma js_rem_small:
  assumes "0 \<le> w" "w < b"
  shows "js_rem w b = w"
  using js_rem_decompose[of w b 0] assms by simp

lemma js_rem_range:
  assumes "0 \<le> v" "0 < b"
  shows "0 \<le> js_rem v b \<and> js_rem v b < b"
proof -
  have q: "0 \<le> v / b" using assms by simp
  have f: "of_int \<lfloor>v / b\<rfloor> \<le> v / b" "v / b < of_int \<lfloor>v / b\<rfloor> + 1" by linarith+
  have "of_int \<lfloor>v / b\<rfloor> * b \<le> v"
    using f(1) pos_le_divide_eq[OF assms(2)] by blast
  moreover have "v < (of_int \<lfloor>v / b\<rfloor> + 1) * b"
    using f(2) pos_divide_less_eq[OF assms(2)] by blast
  ultimately show ?thesis unfolding js_rem_def using q by (simp add: algebra_simps)
qed

lemma edgeTowards_Some:
  assumes "i2 = leftN nb \<or> i2 = rightN nb \<or> i2 = bottomN nb \<or> i2 = topN nb"
  shows "\<exists>e. edgeTowards nb (Some i2) = Some e"
  using assms by (auto simp: edgeTowards_def)

lemma check_mismatch:
  assumes "infoOf piecesInfo (tindex piece1) = Some info1"
    and "infoOf piecesInfo (tindex piece2) = Some info2"
    and "edgeTowards (neighbors info1) (tindex piece2) = Some e"
    and "\<not> (js_rem (abs (trotation piece1 - trotation piece2)) (2 * pi) < 0.1
         \<or> abs (js_rem (abs (trotation piece1 - trotation piece2)) (2 * pi) - 2 * pi) < 0.1)"
  shows "checkSnapPossibility piece1 piece2 piecesInfo threshold
       = Some \<lparr>canSnap = False, distance = Infinity, edge = e,
               targetX = None, targetY = None, targetRotation = None\<rparr>"
proof -
  have m: "(js_rem (abs (trotation piece1 - trotation piece2)) (2 * pi) < 0.1
         \<or> abs (js_rem (abs (trotation piece1 - trotation piece2)) (2 * pi) - 2 * pi) < 0.1) = False"
    using assms(4) by blast
  show ?thesis
    unfolding checkSnapPossibility_def assms(1,2) Let_def
    by (simp only: prod.case option.case assms(3) m not_False_eq_True if_True)
qed

lemma check_match:
  assumes "infoOf piecesInfo (tindex piece1) = Some info1"
    and "infoOf piecesInfo (tindex piece2) = Some info2"
    and "edgeTowards (neighbors info1) (tindex piece2) = Some e"
    and "js_rem (abs (trotation piece1 - trotation piece2)) (2 * pi) < 0.1
         \<or> abs (js_rem (abs (trotation piece1 - trotation piece2)) (2 * pi) - 2 * pi) < 0.1"
    and "dx = (centerX info1 - centerX info2) * cos (trotation piece2)
              - (centerY info1 - centerY info2) * sin (trotation piece2)"
    and "dy = (centerX info1 - centerX info2) * sin (trotation piece2)
              + (centerY info1 - centerY info2) * cos (trotation piece2)"
    and "d = sqrt ((tx piece1 - tx piece2 - dx)\<^sup>2 + (ty piece1 - ty piece2 - dy)\<^sup>2)"
  shows "checkSnapPossibility piece1 piece2 piecesInfo threshold
       = (if d \<le> threshold
          then Some \<lparr>canSnap = True, distance = Finite d, edge = e,
                     targetX = Some (tx piece2 + dx), targetY = Some (ty piece2 + dy),
                     targetRotation = Some (trotation piece2)\<rparr>
          else Some \<lparr>canSnap = False, distance = Finite d, edge = e,
                     targetX = None, targetY = None, targetRotation = None\<rparr>)"
proof -
  have m: "(js_rem (abs (trotation piece1 - trotation piece2)) (2 * pi) < 0.1
         \<or> abs (js_rem (abs (trotation piece1 - trotation piece2)) (2 * pi) - 2 * pi) < 0.1) = True"
    using assms(4) by blast
  have o: "orZero (trotation piece2) = trotation piece2" by (simp add: orZero_def)
  show ?thesis
    unfolding checkSnapPossibility_def assms(1,2) Let_def o
    by (simp only: prod.case option.case assms(3) m not_True_eq_False if_False
          assms(5,6,7) power2_eq_square)
qed

text \<open>
  Claim C4. For two grid-adjacent pieces whose pose objects carry valid indices and whose
  rotations match, \<open>checkSnapPossibility\<close> returns a result whose distance is the
  Euclidean norm of the current relative offset minus the assembled relative offset
  rotated by the neighbour's rotation; \<open>canSnap\<close> is \<open>distance \<le> threshold\<close>; and when it
  holds the target is the neighbour's position plus the rotated offset, with the
  neighbour's rotation.
\<close>

theorem snap_distance_and_target:
  assumes "tindex piece1 = Some i1" "js_at piecesInfo i1 = Some info1"
    and "tindex piece2 = Some i2" "js_at piecesInfo i2 = Some info2"
    and "i2 = leftN (neighbors info1) \<or> i2 = rightN (neighbors info1)
         \<or> i2 = bottomN (neighbors info1) \<or> i2 = topN (neighbors info1)"
    and "js_rem (abs (trotation piece1 - trotation piece2)) (2 * pi) < 0.1
         \<or> abs (js_rem (abs (trotation piece1 - trotation piece2)) (2 * pi) - 2 * pi) < 0.1"
    and "dx = (centerX info1 - centerX info2) * cos (trotation piece2)
              - (centerY info1 - centerY info2) * sin (trotation piece2)"
    and "dy = (centerX info1 - centerX info2) * sin (trotation piece2)
              + (centerY info1 - centerY info2) * cos (trotation piece2)"
    and "d = sqrt ((tx piece1 - tx piece2 - dx)\<^sup>2 + (ty piece1 - ty piece2 - dy)\<^sup>2)"
  shows "\<exists>res. checkSnapPossibility piece1 piece2 piecesInfo threshold = Some res
           \<and> distance res = Finite d
           \<and> canSnap res = (d \<le> threshold)
           \<and> (canSnap res \<longrightarrow>
                 targetX res = Some (tx piece2 + dx)
               \<and> targetY res = Some (ty piece2 + dy)
               \<and> targetRotation res = Some (trotation piece2))"
proof -
  obtain e where e: "edgeTowards (neighbors info1) (tindex piece2) = Some e"
    using edgeTowards_Some[OF assms(5)] assms(3) by auto
  have i1: "infoOf piecesInfo (tindex piece1) = Some info1"
    and i2: "infoOf piecesInfo (tindex piece2) = Some info2"
    by (simp_all add: infoOf_def assms(1,2,3,4))
  note c = check_match[OF i1 i2 e assms(6,7,8,9), of threshold]
  show ?thesis
  proof (cases "d \<le> threshold")
    case True
    then show ?thesis unfolding c by simp
  next
    case False
    then show ?thesis unfolding c by simp
  qed
qed

lemma quarter_turn_remainder:
  assumes "r1 - r2 = pi / 2 + 2 * pi * of_int k"
  shows "js_rem (abs (r1 - r2)) (2 * pi) = pi / 2 \<or> js_rem (abs (r1 - r2)) (2 * pi) = 3 * pi / 2"
proof (cases "0 \<le> k")
  case True
  then have "0 \<le> pi / 2 + 2 * pi * of_int k" by simp
  then have "abs (r1 - r2) = pi / 2 + 2 * pi * of_int k" using assms by simp
  moreover have "js_rem (pi / 2 + 2 * pi * of_int k) (2 * pi) = pi / 2"
    using True by (intro js_rem_decompose) simp_all
  ultimately show ?thesis by simp
next
  case False
  then have k: "0 \<le> - k - 1" by simp
  have "k \<le> -1" using False by simp
  then have "(of_int k :: real) \<le> of_int (-1)" by (simp only: of_int_le_iff)
  then have "of_int k \<le> (-1::real)" by simp
  then have "2 * pi * of_int k \<le> 2 * pi * (-1)" by (intro mult_left_mono) simp_all
  then have "pi / 2 + 2 * pi * of_int k \<le> 0" using pi_gt_zero by linarith
  then have "abs (r1 - r2) = - (pi / 2 + 2 * pi * of_int k)" using assms by simp
  also have "\<dots> = 3 * pi / 2 + 2 * pi * of_int (- k - 1)" by (simp add: algebra_simps)
  finally have "abs (r1 - r2) = 3 * pi / 2 + 2 * pi * of_int (- k - 1)" .
  moreover have "js_rem (3 * pi / 2 + 2 * pi * of_int (- k - 1)) (2 * pi) = 3 * pi / 2"
    using k by (intro js_rem_decompose) simp_all
  ultimately show ?thesis by simp
qed

lemma quarter_turn_mismatch:
  assumes "rd = pi / 2 \<or> rd = 3 * pi / 2"
  shows "\<not> (rd < 0.1 \<or> abs (rd - 2 * pi) < 0.1)"
proof -
  have "2 \<le> pi" by (rule pi_ge_two)
  then show ?thesis using assms by auto
qed

text \<open>
  Claim C3, amended. For two grid-adjacent pieces whose pose objects carry valid indices,
  \<open>checkSnapPossibility\<close> returns \<open>canSnap = false\<close> with \<open>distance = Infinity\<close> exactly
  when the rotation difference modulo \<open>2 * pi\<close> is at least \<open>0.1\<close> away from both \<open>0\<close> and
  \<open>2 * pi\<close> (the tolerance is strict: a difference of exactly \<open>0.1\<close> is rejected). In
  particular, rotations that differ by \<open>pi / 2\<close> modulo \<open>2 * pi\<close> never give
  \<open>canSnap = true\<close>, whatever the positions.
\<close>

theorem rotation_mismatch_rejection:
  assumes "tindex piece1 = Some i1" "js_at piecesInfo i1 = Some info1"
    and "tindex piece2 = Some i2" "js_at piecesInfo i2 = Some info2"
    and "i2 = leftN (neighbors info1) \<or> i2 = rightN (neighbors info1)
         \<or> i2 = bottomN (neighbors info1) \<or> i2 = topN (neighbors info1)"
    and "rd = js_rem (abs (trotation piece1 - trotation piece2)) (2 * pi)"
  shows "\<exists>res. checkSnapPossibility piece1 piece2 piecesInfo threshold = Some res
           \<and> ((\<not> canSnap res \<and> distance res = Infinity)
                = (0.1 \<le> rd \<and> 0.1 \<le> abs (rd - 2 * pi)))
           \<and> ((\<exists>k::int. trotation piece1 - trotation piece2 = pi / 2 + 2 * pi * of_int k)
                \<longrightarrow> \<not> canSnap res)"
proof -
  obtain e where e: "edgeTowards (neighbors info1) (tindex piece2) = Some e"
    using edgeTowards_Some[OF assms(5)] assms(3) by auto
  have i1: "infoOf piecesInfo (tindex piece1) = Some info1"
    and i2: "infoOf piecesInfo (tindex piece2) = Some info2"
    by (simp_all add: infoOf_def assms(1,2,3,4))
  show ?thesis
  proof (cases "rd < 0.1 \<or> abs (rd - 2 * pi) < 0.1")
    case True
    then have m: "js_rem (abs (trotation piece1 - trotation piece2)) (2 * pi) < 0.1
         \<or> abs (js_rem (abs (trotation piece1 - trotation piece2)) (2 * pi) - 2 * pi) < 0.1"
      unfolding assms(6) .
    have nq: "\<not> (\<exists>k::int. trotation piece1 - trotation piece2 = pi / 2 + 2 * pi * of_int k)"
    proof
      assume "\<exists>k::int. trotation piece1 - trotation piece2 = pi / 2 + 2 * pi * of_int k"
      then obtain k :: int where "trotation piece1 - trotation piece2 = pi / 2 + 2 * pi * of_int k"
        by blast
      from quarter_turn_mismatch[OF quarter_turn_remainder[OF this]] m show False by blast
    qed
    have lt: "\<not> (0.1 \<le> rd \<and> 0.1 \<le> abs (rd - 2 * pi))" using True by linarith
    note c = check_match[OF i1 i2 e m refl refl refl, of threshold]
    show ?thesis
    proof (cases "sqrt ((tx piece1 - tx piece2
                    - ((centerX info1 - centerX info2) * cos (trotation piece2)
                       - (centerY info1 - centerY info2) * sin (trotation piece2)))\<^sup>2
                 + (ty piece1 - ty piece2
                    - ((centerX info1 - centerX info2) * sin (trotation piece2)
                       + (centerY info1 - centerY info2) * cos (trotation piece2)))\<^sup>2)
                 \<le> threshold")
      case True
      have "checkSnapPossibility piece1 piece2 piecesInfo threshold \<noteq> None"
        "\<forall>res. checkSnapPossibility piece1 piece2 piecesInfo threshold = Some res
            \<longrightarrow> distance res \<noteq> Infinity"
        unfolding c using True by simp_all
      then show ?thesis using nq lt by auto
    next
      case False
      have "checkSnapPossibility piece1 piece2 piecesInfo threshold \<noteq> None"
        "\<forall>res. checkSnapPossibility piece1 piece2 piecesInfo threshold = Some res
            \<longrightarrow> distance res \<noteq> Infinity"
        unfolding c using False by simp_all
      then show ?thesis using nq lt by auto
    qed
  next
    case False
    then have m: "\<not> (js_rem (abs (trotation piece1 - trotation piece2)) (2 * pi) < 0.1
         \<or> abs (js_rem (abs (trotation piece1 - trotation piece2)) (2 * pi) - 2 * pi) < 0.1)"
      unfolding assms(6) .
    have ge: "0.1 \<le> rd \<and> 0.1 \<le> abs (rd - 2 * pi)" using False by linarith
    note c = check_mismatch[OF i1 i2 e m, of threshold]
    show ?thesis unfolding c using ge by simp
  qed
qed

lemma initial_grid [simp]:
  "gridX initialPuzzleParams = 2" "gridY initialPuzzleParams = 2"
  "width initialPuzzleParams = 100" "height initialPuzzleParams = 100"
  "depth initialPuzzleParams = 10" "splitMode initialPuzzleParams = ''straight''"
  by (simp_all add: initialPuzzleParams_def)

lemma initial_centers:
  "pieceCenterX 0 initialPuzzleParams = -25" "pieceCenterX 1 initialPuzzleParams = 25"
  "pieceCenterY 0 initialPuzzleParams = -25" "pieceCenterY 1 initialPuzzleParams = 25"
  by (simp_all add: pieceCenterX_def pieceCenterY_def xLeft_def xRight_def yBottom_def yTop_def
        pieceW_def pieceH_def)

lemma initial_piece0:
  "js_at (generateAllPieces initialPuzzleParams) 0 = Some (pieceAt 0 0 0 initialPuzzleParams)"
  using js_at_generateAllPieces[of initialPuzzleParams 0] by simp

lemma initial_piece1:
  "js_at (generateAllPieces initialPuzzleParams) 1 = Some (pieceAt 1 0 1 initialPuzzleParams)"
  using js_at_generateAllPieces[of initialPuzzleParams 1] by simp

lemma js_rem_zero [simp]: "js_rem 0 b = 0"
  by (simp add: js_rem_def)

text \<open>
  The initial 2 by 2 grid: piece 0 has no left and no bottom neighbour, piece 1 to its
  right and piece 2 above it.
\<close>

theorem neighbors_symmetric_witness:
  "length (generateAllPieces initialPuzzleParams) = 4
   \<and> index (generateAllPieces initialPuzzleParams ! 0) = 0
   \<and> rightN (neighbors (generateAllPieces initialPuzzleParams ! 0)) = 1
   \<and> leftN (neighbors (generateAllPieces initialPuzzleParams ! 1)) = 0
   \<and> leftN (neighbors (generateAllPieces initialPuzzleParams ! 0)) = -1
   \<and> bottomN (neighbors (generateAllPieces initialPuzzleParams ! 0)) = -1
   \<and> topN (neighbors (generateAllPieces initialPuzzleParams ! 0)) = 2"
proof -
  have h: "1 \<le> gridX initialPuzzleParams" "1 \<le> gridY initialPuzzleParams"
    "(0::int) \<le> 0" "0 < gridX initialPuzzleParams * gridY initialPuzzleParams"
    "(0::int) \<le> 1" "1 < gridX initialPuzzleParams * gridY initialPuzzleParams"
    by simp_all
  from neighbors_symmetric[OF h] show ?thesis by auto
qed

text \<open>
  Piece 0 of the initial grid, one unit to the right of its place beside piece 1: the
  distance is \<open>1\<close>, the snap is accepted at threshold \<open>20\<close>, and the target is the
  assembled position of piece 0.
\<close>

theorem snap_distance_and_target_witness:
  "\<exists>res. checkSnapPossibility
            \<lparr>tx = -24, ty = -25, tz = 5, trotation = 0, tindex = Some 0\<rparr>
            \<lparr>tx = 25, ty = -25, tz = 5, trotation = 0, tindex = Some 1\<rparr>
            (generateAllPieces initialPuzzleParams) 20 = Some res
         \<and> distance res = Finite 1 \<and> canSnap res
         \<and> targetX res = Some (-25) \<and> targetY res = Some (-25)
         \<and> targetRotation res = Some 0"
proof -
  let ?p1 = "\<lparr>tx = -24, ty = -25, tz = 5, trotation = 0, tindex = Some 0\<rparr>"
  let ?p2 = "\<lparr>tx = 25, ty = -25, tz = 5, trotation = 0, tindex = Some 1\<rparr>"
  let ?a = "pieceAt 0 0 0 initialPuzzleParams" and ?b = "pieceAt 1 0 1 initialPuzzleParams"
  have adj: "1 = leftN (neighbors ?a) \<or> 1 = rightN (neighbors ?a)
         \<or> 1 = bottomN (neighbors ?a) \<or> 1 = topN (neighbors ?a)" by simp
  have rot: "js_rem (abs (trotation ?p1 - trotation ?p2)) (2 * pi) < 0.1
         \<or> abs (js_rem (abs (trotation ?p1 - trotation ?p2)) (2 * pi) - 2 * pi) < 0.1" by simp
  have t1: "tindex ?p1 = Some 0" and t2: "tindex ?p2 = Some 1" by simp_all
  from snap_distance_and_target[OF t1 initial_piece0 t2 initial_piece1 adj rot refl refl refl, of 20]
  have "\<exists>res. checkSnapPossibility ?p1 ?p2 (generateAllPieces initialPuzzleParams) 20 = Some res
         \<and> distance res = Finite 1 \<and> canSnap res
         \<and> (canSnap res \<longrightarrow> targetX res = Some (-25) \<and> targetY res = Some (-25)
               \<and> targetRotation res = Some 0)"
    by (simp add: initial_centers)
  then show ?thesis by blast
qed

text \<open>
  Pieces 0 and 1 of the initial grid at their assembled positions, piece 0 turned by a
  quarter turn: no snap.
\<close>

theorem rotation_mismatch_rejection_witness:
  "\<exists>res. checkSnapPossibility
            \<lparr>tx = -25, ty = -25, tz = 5, trotation = pi / 2, tindex = Some 0\<rparr>
            \<lparr>tx = 25, ty = -25, tz = 5, trotation = 0, tindex = Some 1\<rparr>
            (generateAllPieces initialPuzzleParams) 20 = Some res
         \<and> \<not> canSnap res"
proof -
  let ?p1 = "\<lparr>tx = -25, ty = -25, tz = 5, trotation = pi / 2, tindex = Some 0\<rparr>"
  let ?p2 = "\<lparr>tx = 25, ty = -25, tz = 5, trotation = 0, tindex = Some 1\<rparr>"
  let ?a = "pieceAt 0 0 0 initialPuzzleParams" and ?b = "pieceAt 1 0 1 initialPuzzleParams"
  have adj: "1 = leftN (neighbors ?a) \<or> 1 = rightN (neighbors ?a)
         \<or> 1 = bottomN (neighbors ?a) \<or> 1 = topN (neighbors ?a)" by simp
  have t1: "tindex ?p1 = Some 0" and t2: "tindex ?p2 = Some 1" by simp_all
  have q: "\<exists>k::int. trotation ?p1 - trotation ?p2 = pi / 2 + 2 * pi * of_int k"
    by (rule exI[of _ 0]) simp
  from rotation_mismatch_rejection[OF t1 initial_piece0 t2 initial_piece1 adj refl, of 20] q
  show ?thesis by blast
qed

text \<open>
  Claim C3 as stated fails at the boundary of the tolerance. Piece 0 turned by exactly
  \<open>0.1\<close> beside piece 1 at rotation \<open>0\<close> is rejected with an infinite distance, although
  the rotation difference is not farther than \<open>0.1\<close> from \<open>0\<close>.
\<close>

theorem rotation_boundary_counterexample:
  "checkSnapPossibility
      \<lparr>tx = -25, ty = -25, tz = 5, trotation = 1 / 10, tindex = Some 0\<rparr>
      \<lparr>tx = 25, ty = -25, tz = 5, trotation = 0, tindex = Some 1\<rparr>
      (generateAllPieces initialPuzzleParams) 20
     = Some \<lparr>canSnap = False, distance = Infinity, edge = ''right'',
             targetX = None, targetY = None, targetRotation = None\<rparr>
   \<and> \<not> (1 / 10 < abs (js_rem (abs (1 / 10 - 0)) (2 * pi) - 0)
        \<and> 1 / 10 < abs (js_rem (abs (1 / 10 - 0)) (2 * pi) - 2 * pi))"
proof -
  let ?p1 = "\<lparr>tx = -25, ty = -25, tz = 5, trotation = 1 / 10, tindex = Some 0\<rparr>"
  let ?p2 = "\<lparr>tx = 25, ty = -25, tz = 5, trotation = 0, tindex = Some 1\<rparr>"
  have lt: "(1::real) / 10 < 2 * pi" using pi_ge_two by linarith
  have r: "js_rem (abs (1 / 10 - 0)) (2 * pi) = 1 / 10"
    using js_rem_small[of "1 / 10" "2 * pi"] lt by simp
  have i1: "infoOf (generateAllPieces initialPuzzleParams) (tindex ?p1)
              = Some (pieceAt 0 0 0 initialPuzzleParams)"
    and i2: "infoOf (generateAllPieces initialPuzzleParams) (tindex ?p2)
              = Some (pieceAt 1 0 1 initialPuzzleParams)"
    by (simp_all add: infoOf_def initial_piece0 initial_piece1)
  have e: "edgeTowards (neighbors (pieceAt 0 0 0 initialPuzzleParams)) (tindex ?p2) = Some ''right''"
    by (simp add: edgeTowards_def)
  have m: "\<not> (js_rem (abs (trotation ?p1 - trotation ?p2)) (2 * pi) < 0.1
         \<or> abs (js_rem (abs (trotation ?p1 - trotation ?p2)) (2 * pi) - 2 * pi) < 0.1)"
    using r pi_ge_two by simp
  show ?thesis using check_mismatch[OF i1 i2 e m, of 20] r by simp
qed

section \<open>The pose store and the interaction handlers\<close>

lemma check_without_index:
  assumes "tindex piece1 = None"
  shows "checkSnapPossibility piece1 piece2 piecesInfo threshold = None"
  by (simp add: checkSnapPossibility_def infoOf_def assms)

lemma snapTargetFor_without_index:
  assumes "tindex piece = None"
  shows "snapTargetFor piece transforms piecesInfo threshold entry = None"
  by (simp add: snapTargetFor_def Let_def check_without_index[OF assms] split: option.splits)

lemma findSnapTargets_without_index:
  assumes "\<forall>t \<in> set transforms. tindex t = None"
  shows "findSnapTargets pieceIndex transforms piecesInfo threshold = []"
proof (cases "js_at transforms pieceIndex")
  case None
  then show ?thesis by (simp add: findSnapTargets_def)
next
  case (Some piece)
  then have "piece \<in> set transforms"
    by (auto simp: js_at_def split: if_splits)
  then have "tindex piece = None" using assms by blast
  then have "List.map_filter (snapTargetFor piece transforms piecesInfo threshold) es = []" for es
    by (simp add: List.map_filter_def snapTargetFor_without_index)
  then show ?thesis using Some by (simp add: findSnapTargets_def split: option.splits)
qed

lemma noIndex_update:
  assumes "noIndex s" "patchIndex patch = None"
  shows "noIndex (updatePieceTransform idx patch s)"
proof (cases "js_at (pieceTransforms s) idx")
  case None
  then show ?thesis using assms by (simp add: updatePieceTransform_def)
next
  case (Some old)
  then have "old \<in> set (pieceTransforms s)" by (auto simp: js_at_def split: if_splits)
  then have "tindex (mergeTransform old patch) = None"
    using assms by (simp add: noIndex_def mergeTransform_def)
  moreover have "set ((pieceTransforms s)[nat idx := mergeTransform old patch])
                  \<subseteq> insert (mergeTransform old patch) (set (pieceTransforms s))"
    by (rule set_update_subset_insert)
  ultimately show ?thesis using assms(1) Some
    by (auto simp: noIndex_def updatePieceTransform_def)
qed

lemma noIndex_handleMouseUp: "noIndex s \<Longrightarrow> noIndex (handleMouseUp s)"
  by (auto simp: handleMouseUp_def Let_def noIndex_def findSnapTargets_without_index)

lemma noIndex_handleMouseMove: "noIndex s \<Longrightarrow> noIndex (handleMouseMove ev s)"
  using noIndex_update[of s "rotatePatch r" for r] noIndex_update[of s "movePatch a b" for a b]
  by (auto simp: handleMouseMove_def Let_def rotatePatch_def movePatch_def split: option.splits)

lemma noIndex_handleMouseDown: "noIndex s \<Longrightarrow> noIndex (handleMouseDown ev s)"
  by (auto simp: handleMouseDown_def Let_def noIndex_def setSelectedPieceIndex_def
           split: option.splits)

lemma noIndex_handleScatter: "noIndex s \<Longrightarrow> noIndex (handleScatter params rnd s)"
  by (auto simp: handleScatter_def Let_def noIndex_def setSelectedPieceIndex_def
        setPuzzleScattered_def setPieceTransforms_def scatterTransform_def)

lemma noIndex_handleAssemble: "noIndex s \<Longrightarrow> noIndex (handleAssemble params s)"
  by (auto simp: handleAssemble_def Let_def noIndex_def setSelectedPieceIndex_def
        setPuzzleScattered_def setPieceTransforms_def assembledTransform_def)

lemma noIndex_createPuzzlePieces: "noIndex s \<Longrightarrow> noIndex (createPuzzlePieces params s)"
  by (auto simp: createPuzzlePieces_def Let_def noIndex_def setPieceTransforms_def
        assembledTransform_def)

lemma noIndex_reachable: "reachable s \<Longrightarrow> noIndex s"
proof (induction rule: reachable.induct)
  case reach_init
  show ?case by (simp add: noIndex_def initialState_def)
next
  case (reach_gameMode s b)
  then show ?case by (simp add: noIndex_def setPuzzleGameMode_def)
next
  case (reach_difficulty s m)
  then show ?case by (simp add: noIndex_def setDifficultyMode_def)
next
  case (reach_snapDistance s d)
  then show ?case by (simp add: noIndex_def setSnapDistance_def)
next
  case (reach_reset s)
  show ?case by (simp add: noIndex_def setPieceTransforms_def)
next
  case (reach_create s params)
  then show ?case by (simp add: noIndex_createPuzzlePieces)
next
  case (reach_scatter s params rnd)
  then show ?case by (simp add: noIndex_handleScatter)
next
  case (reach_assemble s params)
  then show ?case by (simp add: noIndex_handleAssemble)
next
  case (reach_down s ev)
  then show ?case by (simp add: noIndex_handleMouseDown)
next
  case (reach_move s ev)
  then show ?case by (simp add: noIndex_handleMouseMove)
next
  case (reach_up s)
  then show ?case by (simp add: noIndex_handleMouseUp)
qed

text \<open>
  Claim C2. Every pose object the application stores (initialisation, scatter, assemble,
  and the partial merges of drag, rotate and snap correction) has no \<open>index\<close> property,
  while \<open>checkSnapPossibility\<close> looks the pieces up by that property. So in every state
  the application can reach, \<open>checkSnapPossibility\<close> on a stored pose returns \<open>null\<close>,
  \<open>findSnapTargets\<close> returns the empty list for every piece index, threshold and piece
  array, no proximity highlight is produced, and releasing a drag never changes a pose.
\<close>

theorem stored_transforms_never_snap:
  assumes "reachable s"
  shows "(\<forall>t \<in> set (pieceTransforms s). tindex t = None)
       \<and> (\<forall>p \<in> set (pieceTransforms s). \<forall>q.
             checkSnapPossibility p q piecesInfo threshold = None)
       \<and> findSnapTargets pieceIndex (pieceTransforms s) piecesInfo threshold = []
       \<and> updateSnapHighlights s = []
       \<and> pieceTransforms (handleMouseUp s) = pieceTransforms s"
proof -
  have n: "\<forall>t \<in> set (pieceTransforms s). tindex t = None"
    using noIndex_reachable[OF assms] by (simp add: noIndex_def)
  have f: "findSnapTargets i (pieceTransforms s) infos th = []" for i infos th
    by (rule findSnapTargets_without_index[OF n])
  have h: "updateSnapHighlights s = []"
    by (simp add: updateSnapHighlights_def f List.map_filter_def)
  have u: "pieceTransforms (handleMouseUp s) = pieceTransforms s"
    by (simp add: handleMouseUp_def Let_def f)
  show ?thesis using n f h u check_without_index by blast
qed

text \<open>
  A reachable state: game mode entered, the initial grid created, then assembled.
\<close>

theorem stored_transforms_never_snap_witness:
  "reachable (handleAssemble initialPuzzleParams
               (createPuzzlePieces initialPuzzleParams (setPuzzleGameMode True initialState)))
   \<and> findSnapTargets 0
        (pieceTransforms (handleAssemble initialPuzzleParams
           (createPuzzlePieces initialPuzzleParams (setPuzzleGameMode True initialState))))
        (generateAllPieces initialPuzzleParams) 20 = []"
proof -
  have r: "reachable (handleAssemble initialPuzzleParams
               (createPuzzlePieces initialPuzzleParams (setPuzzleGameMode True initialState)))"
    by (intro reach_assemble reach_create reach_gameMode reach_init)
  from stored_transforms_never_snap[OF r] r show ?thesis by blast
qed

text \<open>
  Claim C1 at the initial 2 by 2 grid. The transforms that initialisation stores are the
  assembled poses; piece 0 has piece 1 as its right neighbour, an interior adjacency; yet
  \<open>findSnapTargets\<close> for piece 0 returns no candidate at all, where the claim requires one
  with \<open>canSnap = true\<close> and \<open>distance = 0\<close>.
\<close>

theorem assembled_pieces_find_no_target:
  "pieceTransforms (createPuzzlePieces initialPuzzleParams initialState)
     = map (assembledTransform initialPuzzleParams) (generateAllPieces initialPuzzleParams)
   \<and> length (generateAllPieces initialPuzzleParams) = 4
   \<and> rightN (neighbors (generateAllPieces initialPuzzleParams ! 0)) = 1
   \<and> findSnapTargets 0
        (map (assembledTransform initialPuzzleParams) (generateAllPieces initialPuzzleParams))
        (generateAllPieces initialPuzzleParams) 20 = []"
proof -
  have a: "pieceTransforms (createPuzzlePieces initialPuzzleParams initialState)
     = map (assembledTransform initialPuzzleParams) (generateAllPieces initialPuzzleParams)"
    by (simp add: createPuzzlePieces_def Let_def initialState_def setPieceTransforms_def)
  have l: "length (generateAllPieces initialPuzzleParams) = 4"
    by (simp add: length_generateAllPieces)
  have "generateAllPieces initialPuzzleParams ! nat 0 = pieceAt (0 mod 2) (0 div 2) 0 initialPuzzleParams"
    using nth_generateAllPieces[of initialPuzzleParams 0] by simp
  then have n: "rightN (neighbors (generateAllPieces initialPuzzleParams ! 0)) = 1" by simp
  have "\<forall>t \<in> set (map (assembledTransform initialPuzzleParams)
                      (generateAllPieces initialPuzzleParams)). tindex t = None"
    by (simp add: assembledTransform_def)
  then have f: "findSnapTargets 0
        (map (assembledTransform initialPuzzleParams) (generateAllPieces initialPuzzleParams))
        (generateAllPieces initialPuzzleParams) 20 = []"
    by (rule findSnapTargets_without_index)
  show ?thesis using a l n f by blast
qed

lemma scatter_radius_bounds:
  assumes "0 \<le> u" "u < 1" "0 < (R::real)"
  shows "0.5 * R \<le> R * (0.5 + u * 0.5) \<and> R * (0.5 + u * 0.5) < R"
proof -
  have a: "0 \<le> R * u" using assms by (intro mult_nonneg_nonneg) simp_all
  have b: "R * u < R * 1" using assms by (intro mult_strict_left_mono) simp_all
  from a b show ?thesis by (simp add: algebra_simps)
qed

lemma polar_norm:
  assumes "0 \<le> (rad::real)"
  shows "sqrt ((cos a * rad)\<^sup>2 + (sin a * rad)\<^sup>2) = rad"
proof -
  have "(cos a * rad)\<^sup>2 + (sin a * rad)\<^sup>2 = ((cos a)\<^sup>2 + (sin a)\<^sup>2) * rad\<^sup>2"
    by (simp only: power_mult_distrib distrib_right)
  also have "\<dots> = rad\<^sup>2" by (simp only: cos_squared_eq) simp
  finally show ?thesis using assms by simp
qed

lemma scatter_nth:
  assumes "piecesInfoRef s \<noteq> []" "i < length (piecesInfoRef s)"
  shows "pieceTransforms (handleScatter params rnd s) ! i
       = scatterTransform params rnd (length (piecesInfoRef s)) i"
  using assms
  by (simp add: handleScatter_def Let_def setSelectedPieceIndex_def setPuzzleScattered_def
        setPieceTransforms_def)

lemma scatterTransform_local:
  assumes "rnd' (3 * i) = rnd (3 * i)" "rnd' (3 * i + 1) = rnd (3 * i + 1)"
    "rnd' (3 * i + 2) = rnd (3 * i + 2)"
  shows "scatterTransform params rnd' n i = scatterTransform params rnd n i"
  unfolding scatterTransform_def Let_def assms ..

text \<open>
  Claim C10. With at least one piece present and every draw of \<open>Math.random\<close> in
  \<open>[0, 1)\<close>, scatter gives piece \<open>i\<close> the position at angle
  \<open>i / n * 2 * pi + 0.5 * draw\<close> and radius \<open>R * (0.5 + 0.5 * draw)\<close> from the origin, where
  \<open>R = 1.5 * max width height\<close>, so its distance from the origin lies between \<open>0.5 * R\<close>
  and \<open>1.0 * R\<close>; a rotation \<open>2 * pi * draw\<close> in \<open>[0, 2 * pi)\<close>; and \<open>z = depth / 2\<close>. The
  selection is cleared. The pose of piece \<open>i\<close> depends on its own three draws only.
\<close>

theorem scatter_poses:
  assumes "piecesInfoRef s \<noteq> []" "i < length (piecesInfoRef s)"
    and "0 < width params" "0 < height params"
    and "\<forall>k. 0 \<le> rnd k \<and> rnd k < 1"
    and "R = 1.5 * max (width params) (height params)"
    and "t = pieceTransforms (handleScatter params rnd s) ! i"
  shows "length (pieceTransforms (handleScatter params rnd s)) = length (piecesInfoRef s)
       \<and> tx t = cos (real i / real (length (piecesInfoRef s)) * pi * 2 + rnd (3 * i) * 0.5)
                  * (R * (0.5 + rnd (3 * i + 1) * 0.5))
       \<and> ty t = sin (real i / real (length (piecesInfoRef s)) * pi * 2 + rnd (3 * i) * 0.5)
                  * (R * (0.5 + rnd (3 * i + 1) * 0.5))
       \<and> 0.5 * R \<le> sqrt ((tx t)\<^sup>2 + (ty t)\<^sup>2) \<and> sqrt ((tx t)\<^sup>2 + (ty t)\<^sup>2) \<le> 1.0 * R
       \<and> trotation t = rnd (3 * i + 2) * pi * 2
       \<and> 0 \<le> trotation t \<and> trotation t < 2 * pi
       \<and> tz t = depth params / 2
       \<and> selectedPieceIndex (handleScatter params rnd s) = -1
       \<and> puzzleScattered (handleScatter params rnd s)
       \<and> (\<forall>rnd'. rnd' (3 * i) = rnd (3 * i) \<and> rnd' (3 * i + 1) = rnd (3 * i + 1)
                 \<and> rnd' (3 * i + 2) = rnd (3 * i + 2)
              \<longrightarrow> pieceTransforms (handleScatter params rnd' s) ! i = t)"
proof -
  let ?n = "length (piecesInfoRef s)"
  let ?rad = "R * (0.5 + rnd (3 * i + 1) * 0.5)"
  let ?ang = "real i / real ?n * pi * 2 + rnd (3 * i) * 0.5"
  have R: "0 < R" using assms(3,4,6) by simp
  have Rdef: "max (width params) (height params) * 1.5 = R" using assms(6) by simp
  have t: "t = scatterTransform params rnd ?n i"
    unfolding assms(7) by (rule scatter_nth[OF assms(1,2)])
  have u: "0 \<le> rnd (3 * i + 1)" "rnd (3 * i + 1) < 1" "0 \<le> rnd (3 * i + 2)" "rnd (3 * i + 2) < 1"
    using assms(5) by simp_all
  note rb = scatter_radius_bounds[OF u(1,2) R]
  have x: "tx t = cos ?ang * ?rad" and y: "ty t = sin ?ang * ?rad"
    and z: "tz t = depth params / 2" and rot: "trotation t = rnd (3 * i + 2) * pi * 2"
    unfolding t scatterTransform_def Let_def Rdef by simp_all
  have rad0: "0 \<le> ?rad" using rb R by linarith
  have norm: "sqrt ((tx t)\<^sup>2 + (ty t)\<^sup>2) = ?rad"
    unfolding x y by (rule polar_norm[OF rad0])
  have rotb: "0 \<le> trotation t" "trotation t < 2 * pi"
  proof -
    have "0 \<le> rnd (3 * i + 2) * (pi * 2)" using u(3) by simp
    moreover have "rnd (3 * i + 2) * (pi * 2) < 1 * (pi * 2)"
      using u(4) by (intro mult_strict_right_mono) simp_all
    ultimately show "0 \<le> trotation t" "trotation t < 2 * pi" unfolding rot by simp_all
  qed
  have len: "length (pieceTransforms (handleScatter params rnd s)) = ?n"
    and sel: "selectedPieceIndex (handleScatter params rnd s) = -1"
    and sc: "puzzleScattered (handleScatter params rnd s)"
    using assms(1)
    by (simp_all add: handleScatter_def Let_def setSelectedPieceIndex_def setPuzzleScattered_def
          setPieceTransforms_def)
  have ind: "\<forall>rnd'. rnd' (3 * i) = rnd (3 * i) \<and> rnd' (3 * i + 1) = rnd (3 * i + 1)
                 \<and> rnd' (3 * i + 2) = rnd (3 * i + 2)
              \<longrightarrow> pieceTransforms (handleScatter params rnd' s) ! i = t"
  proof (intro allI impI)
    fix rnd' :: "nat \<Rightarrow> real"
    assume a: "rnd' (3 * i) = rnd (3 * i) \<and> rnd' (3 * i + 1) = rnd (3 * i + 1)
                 \<and> rnd' (3 * i + 2) = rnd (3 * i + 2)"
    have "pieceTransforms (handleScatter params rnd' s) ! i = scatterTransform params rnd' ?n i"
      by (rule scatter_nth[OF assms(1,2)])
    also have "\<dots> = scatterTransform params rnd ?n i"
      using a by (intro scatterTransform_local) blast+
    finally show "pieceTransforms (handleScatter params rnd' s) ! i = t" unfolding t .
  qed
  have nb1: "0.5 * R \<le> sqrt ((tx t)\<^sup>2 + (ty t)\<^sup>2)"
    unfolding norm by (rule conjunct1[OF rb])
  have "sqrt ((tx t)\<^sup>2 + (ty t)\<^sup>2) < R"
    unfolding norm by (rule conjunct2[OF rb])
  then have nb2: "sqrt ((tx t)\<^sup>2 + (ty t)\<^sup>2) \<le> 1.0 * R" by simp
  note nb = nb1 nb2
  show ?thesis using len x y nb rot rotb z sel sc ind by blast
qed


text \<open>
  The initial grid with piece 2 selected, every draw \<open>1/2\<close>: four poses, selection
  cleared, piece 0 turned by \<open>pi\<close> at height \<open>5\<close>.
\<close>

theorem scatter_poses_witness:
  "length (pieceTransforms (handleScatter initialPuzzleParams (\<lambda>k. 1 / 2)
      ((createPuzzlePieces initialPuzzleParams initialState)\<lparr>selectedPieceIndex := 2\<rparr>))) = 4
   \<and> selectedPieceIndex (handleScatter initialPuzzleParams (\<lambda>k. 1 / 2)
      ((createPuzzlePieces initialPuzzleParams initialState)\<lparr>selectedPieceIndex := 2\<rparr>)) = -1
   \<and> trotation (pieceTransforms (handleScatter initialPuzzleParams (\<lambda>k. 1 / 2)
      ((createPuzzlePieces initialPuzzleParams initialState)\<lparr>selectedPieceIndex := 2\<rparr>)) ! 0) = pi
   \<and> tz (pieceTransforms (handleScatter initialPuzzleParams (\<lambda>k. 1 / 2)
      ((createPuzzlePieces initialPuzzleParams initialState)\<lparr>selectedPieceIndex := 2\<rparr>)) ! 0) = 5"
proof -
  let ?s = "(createPuzzlePieces initialPuzzleParams initialState)\<lparr>selectedPieceIndex := 2\<rparr>"
  have p: "piecesInfoRef ?s = generateAllPieces initialPuzzleParams"
    by (simp add: createPuzzlePieces_def Let_def setPieceTransforms_def)
  have l: "length (piecesInfoRef ?s) = 4" unfolding p by (simp add: length_generateAllPieces)
  have h1: "piecesInfoRef ?s \<noteq> []" using l by auto
  have h2: "0 < length (piecesInfoRef ?s)" using l by simp
  have h3: "0 < width initialPuzzleParams" "0 < height initialPuzzleParams" by simp_all
  have h4: "\<forall>k::nat. (0::real) \<le> (\<lambda>k. 1 / 2) k \<and> (\<lambda>k. 1 / 2) k < (1::real)" by simp
  note sp = scatter_poses[OF h1 h2 h3 h4 refl refl]
  note c2 = conjunct2
  have a: "length (pieceTransforms (handleScatter initialPuzzleParams (\<lambda>k. 1 / 2) ?s)) = 4"
    using sp[THEN conjunct1] l by (simp only:)
  have b: "selectedPieceIndex (handleScatter initialPuzzleParams (\<lambda>k. 1 / 2) ?s) = -1"
    by (rule sp[THEN c2, THEN c2, THEN c2, THEN c2, THEN c2, THEN c2, THEN c2, THEN c2,
                THEN c2, THEN conjunct1])
  have "trotation (pieceTransforms (handleScatter initialPuzzleParams (\<lambda>k. 1 / 2) ?s) ! 0)
          = 1 / 2 * pi * 2"
    by (rule sp[THEN c2, THEN c2, THEN c2, THEN c2, THEN c2, THEN conjunct1])
  then have c: "trotation (pieceTransforms (handleScatter initialPuzzleParams (\<lambda>k. 1 / 2) ?s) ! 0)
          = pi" by simp
  have "tz (pieceTransforms (handleScatter initialPuzzleParams (\<lambda>k. 1 / 2) ?s) ! 0)
          = depth initialPuzzleParams / 2"
    by (rule sp[THEN c2, THEN c2, THEN c2, THEN c2, THEN c2, THEN c2, THEN c2, THEN c2,
                THEN conjunct1])
  then have d: "tz (pieceTransforms (handleScatter initialPuzzleParams (\<lambda>k. 1 / 2) ?s) ! 0) = 5"
    by simp
  from a b c d show ?thesis by blast
qed

section \<open>The centre of a piece\<close>

lemma ringEdges_path:
  assumes "pts \<noteq> []"
  shows "ringEdges pts = zip (pts @ [hd pts]) (tl (pts @ [hd pts]))"
proof -
  obtain x xs where p: "pts = x # xs" using assms by (cases pts) auto
  have "zip ((x # xs) @ [x]) (xs @ [x])
      = zip (x # xs) (take (length (x # xs)) (xs @ [x]))
        @ zip [x] (drop (length (x # xs)) (xs @ [x]))"
    by (rule zip_append1)
  also have "\<dots> = zip (x # xs) (xs @ [x])" by simp
  finally show ?thesis unfolding p ringEdges_def by simp
qed

lemma path_sum_append:
  fixes g :: "vec2 \<Rightarrow> vec2 \<Rightarrow> real"
  assumes "xs \<noteq> []" "ys \<noteq> []" "last xs = hd ys"
  shows "(\<Sum>e\<leftarrow>zip (xs @ tl ys) (tl (xs @ tl ys)). g (fst e) (snd e))
       = (\<Sum>e\<leftarrow>zip xs (tl xs). g (fst e) (snd e)) + (\<Sum>e\<leftarrow>zip ys (tl ys). g (fst e) (snd e))"
  using assms
proof (induction xs rule: list_nonempty_induct)
  case (single x)
  obtain y ys' where y: "ys = y # ys'" using single(1) by (cases ys) auto
  show ?case using single(2) unfolding y by simp
next
  case (cons x xs)
  obtain x' xs' where x': "xs = x' # xs'" using cons(1) by (cases xs) auto
  have "last xs = hd ys" using cons(4) cons(1) by simp
  from cons(2)[OF cons(3) this] show ?case unfolding x' by simp
qed

lemma path_sum_telescope:
  fixes g :: "vec2 \<Rightarrow> vec2 \<Rightarrow> real"
  assumes "pts \<noteq> []" "\<And>p q. p \<in> set pts \<Longrightarrow> q \<in> set pts \<Longrightarrow> g p q = F p - F q"
  shows "(\<Sum>e\<leftarrow>zip pts (tl pts). g (fst e) (snd e)) = F (hd pts) - F (last pts)"
  using assms
proof (induction pts rule: list_nonempty_induct)
  case (single x)
  show ?case by simp
next
  case (cons x xs)
  obtain x' xs' where x': "xs = x' # xs'" using cons(1) by (cases xs) auto
  have ih: "(\<Sum>e\<leftarrow>zip xs (tl xs). g (fst e) (snd e)) = F (hd xs) - F (last xs)"
    using cons(3) by (intro cons(2)) auto
  have "g x x' = F x - F x'" using cons(3)[of x x'] x' by simp
  then show ?case using ih unfolding x' by simp
qed

lemma last_append_tl:
  assumes "xs \<noteq> []" "ys \<noteq> []" "last xs = hd ys"
  shows "last (xs @ tl ys) = last ys"
proof (cases "tl ys = []")
  case True
  then have "ys = [hd ys]" using assms(2) by (cases ys) auto
  then have "last ys = hd ys" by (metis last.simps)
  then show ?thesis using True assms by simp
next
  case False
  then have "last (tl ys) = last ys" using assms(2) by (cases ys) auto
  then show ?thesis using False by simp
qed

lemma ring_sum_sides:
  fixes g :: "vec2 \<Rightarrow> vec2 \<Rightarrow> real"
  assumes "B \<noteq> []" "R \<noteq> []" "T \<noteq> []" "tl L \<noteq> []"
    and "last B = hd R" "last R = hd T" "last T = hd L" "last L = hd B"
  shows "(\<Sum>e\<leftarrow>ringEdges (B @ tl R @ tl T @ butlast (tl L)). g (fst e) (snd e))
       = (\<Sum>e\<leftarrow>zip B (tl B). g (fst e) (snd e)) + (\<Sum>e\<leftarrow>zip R (tl R). g (fst e) (snd e))
       + (\<Sum>e\<leftarrow>zip T (tl T). g (fst e) (snd e)) + (\<Sum>e\<leftarrow>zip L (tl L). g (fst e) (snd e))"
proof -
  let ?pts = "B @ tl R @ tl T @ butlast (tl L)"
  have L: "L \<noteq> []" using assms(4) by auto
  have ne: "?pts \<noteq> []" using assms(1) by simp
  have hd: "hd ?pts = hd B" using assms(1) by simp
  have "last (tl L) = last L" using assms(4) L by (cases L) auto
  then have close: "butlast (tl L) @ [hd B] = tl L"
    using assms(4,8) by (metis append_butlast_last_id)
  have path: "?pts @ [hd ?pts] = ((B @ tl R) @ tl T) @ tl L"
    unfolding hd using close by simp
  have l1: "last (B @ tl R) = last R" by (rule last_append_tl[OF assms(1,2,5)])
  have n1: "B @ tl R \<noteq> []" using assms(1) by simp
  have l2: "last ((B @ tl R) @ tl T) = last T"
    by (rule last_append_tl[OF n1 assms(3)]) (simp only: l1 assms(6))
  have n2: "(B @ tl R) @ tl T \<noteq> []" using assms(1) by simp
  have "(\<Sum>e\<leftarrow>ringEdges ?pts. g (fst e) (snd e))
      = (\<Sum>e\<leftarrow>zip (((B @ tl R) @ tl T) @ tl L) (tl (((B @ tl R) @ tl T) @ tl L)). g (fst e) (snd e))"
    unfolding ringEdges_path[OF ne] path ..
  also have "\<dots> = (\<Sum>e\<leftarrow>zip ((B @ tl R) @ tl T) (tl ((B @ tl R) @ tl T)). g (fst e) (snd e))
                  + (\<Sum>e\<leftarrow>zip L (tl L). g (fst e) (snd e))"
    by (rule path_sum_append[OF n2 L]) (simp only: l2 assms(7))
  also have "(\<Sum>e\<leftarrow>zip ((B @ tl R) @ tl T) (tl ((B @ tl R) @ tl T)). g (fst e) (snd e))
           = (\<Sum>e\<leftarrow>zip (B @ tl R) (tl (B @ tl R)). g (fst e) (snd e))
             + (\<Sum>e\<leftarrow>zip T (tl T). g (fst e) (snd e))"
    by (rule path_sum_append[OF n1 assms(3)]) (simp only: l1 assms(6))
  also have "(\<Sum>e\<leftarrow>zip (B @ tl R) (tl (B @ tl R)). g (fst e) (snd e))
           = (\<Sum>e\<leftarrow>zip B (tl B). g (fst e) (snd e)) + (\<Sum>e\<leftarrow>zip R (tl R). g (fst e) (snd e))"
    by (rule path_sum_append[OF assms(1,2,5)])
  finally show ?thesis by simp
qed

lemma horizontalRun_sums:
  assumes "horizontalRun Y x1 x2 pts"
  shows "(\<Sum>e\<leftarrow>zip pts (tl pts). cross2 (fst e) (snd e)) = Y * (x1 - x2)"
    and "(\<Sum>e\<leftarrow>zip pts (tl pts). (fst (fst e) + fst (snd e)) * cross2 (fst e) (snd e))
          = Y * (x1\<^sup>2 - x2\<^sup>2)"
    and "(\<Sum>e\<leftarrow>zip pts (tl pts). (snd (fst e) + snd (snd e)) * cross2 (fst e) (snd e))
          = 2 * Y\<^sup>2 * (x1 - x2)"
proof -
  have ne: "pts \<noteq> []" and h: "hd pts = (x1, Y)" and l: "last pts = (x2, Y)"
    and c: "\<And>p. p \<in> set pts \<Longrightarrow> snd p = Y"
    using assms by (auto simp: horizontalRun_def)
  have "(\<Sum>e\<leftarrow>zip pts (tl pts). cross2 (fst e) (snd e))
      = (\<lambda>p. Y * fst p) (hd pts) - (\<lambda>p. Y * fst p) (last pts)"
    by (rule path_sum_telescope[OF ne]) (simp add: cross2_def c algebra_simps)
  then show "(\<Sum>e\<leftarrow>zip pts (tl pts). cross2 (fst e) (snd e)) = Y * (x1 - x2)"
    by (simp add: h l algebra_simps)
  have "(\<Sum>e\<leftarrow>zip pts (tl pts). (fst (fst e) + fst (snd e)) * cross2 (fst e) (snd e))
      = (\<lambda>p. Y * (fst p)\<^sup>2) (hd pts) - (\<lambda>p. Y * (fst p)\<^sup>2) (last pts)"
    by (rule path_sum_telescope[OF ne]) (simp add: cross2_def c algebra_simps power2_eq_square)
  then show "(\<Sum>e\<leftarrow>zip pts (tl pts). (fst (fst e) + fst (snd e)) * cross2 (fst e) (snd e))
          = Y * (x1\<^sup>2 - x2\<^sup>2)"
    by (simp add: h l algebra_simps)
  have "(\<Sum>e\<leftarrow>zip pts (tl pts). (snd (fst e) + snd (snd e)) * cross2 (fst e) (snd e))
      = (\<lambda>p. 2 * Y\<^sup>2 * fst p) (hd pts) - (\<lambda>p. 2 * Y\<^sup>2 * fst p) (last pts)"
    by (rule path_sum_telescope[OF ne]) (simp add: cross2_def c algebra_simps power2_eq_square)
  then show "(\<Sum>e\<leftarrow>zip pts (tl pts). (snd (fst e) + snd (snd e)) * cross2 (fst e) (snd e))
          = 2 * Y\<^sup>2 * (x1 - x2)"
    by (simp add: h l algebra_simps)
qed

lemma verticalRun_sums:
  assumes "verticalRun X y1 y2 pts"
  shows "(\<Sum>e\<leftarrow>zip pts (tl pts). cross2 (fst e) (snd e)) = X * (y2 - y1)"
    and "(\<Sum>e\<leftarrow>zip pts (tl pts). (fst (fst e) + fst (snd e)) * cross2 (fst e) (snd e))
          = 2 * X\<^sup>2 * (y2 - y1)"
    and "(\<Sum>e\<leftarrow>zip pts (tl pts). (snd (fst e) + snd (snd e)) * cross2 (fst e) (snd e))
          = X * (y2\<^sup>2 - y1\<^sup>2)"
proof -
  have ne: "pts \<noteq> []" and h: "hd pts = (X, y1)" and l: "last pts = (X, y2)"
    and c: "\<And>p. p \<in> set pts \<Longrightarrow> fst p = X"
    using assms by (auto simp: verticalRun_def)
  have "(\<Sum>e\<leftarrow>zip pts (tl pts). cross2 (fst e) (snd e))
      = (\<lambda>p. - (X * snd p)) (hd pts) - (\<lambda>p. - (X * snd p)) (last pts)"
    by (rule path_sum_telescope[OF ne]) (simp add: cross2_def c algebra_simps)
  then show "(\<Sum>e\<leftarrow>zip pts (tl pts). cross2 (fst e) (snd e)) = X * (y2 - y1)"
    by (simp add: h l algebra_simps)
  have "(\<Sum>e\<leftarrow>zip pts (tl pts). (fst (fst e) + fst (snd e)) * cross2 (fst e) (snd e))
      = (\<lambda>p. - (2 * X\<^sup>2 * snd p)) (hd pts) - (\<lambda>p. - (2 * X\<^sup>2 * snd p)) (last pts)"
    by (rule path_sum_telescope[OF ne]) (simp add: cross2_def c algebra_simps power2_eq_square)
  then show "(\<Sum>e\<leftarrow>zip pts (tl pts). (fst (fst e) + fst (snd e)) * cross2 (fst e) (snd e))
          = 2 * X\<^sup>2 * (y2 - y1)"
    by (simp add: h l algebra_simps)
  have "(\<Sum>e\<leftarrow>zip pts (tl pts). (snd (fst e) + snd (snd e)) * cross2 (fst e) (snd e))
      = (\<lambda>p. - (X * (snd p)\<^sup>2)) (hd pts) - (\<lambda>p. - (X * (snd p)\<^sup>2)) (last pts)"
    by (rule path_sum_telescope[OF ne]) (simp add: cross2_def c algebra_simps power2_eq_square)
  then show "(\<Sum>e\<leftarrow>zip pts (tl pts). (snd (fst e) + snd (snd e)) * cross2 (fst e) (snd e))
          = X * (y2\<^sup>2 - y1\<^sup>2)"
    by (simp add: h l algebra_simps)
qed

lemma hedge_straight_run:
  "horizontalRun Y x1 x2 (generateHorizontalEdge x1 x2 Y ''straight'' a 30)"
proof -
  let ?e = "generateHorizontalEdge x1 x2 Y ''straight'' a 30"
  have ne: "?e \<noteq> []" by (simp add: generateHorizontalEdge_def)
  have "hd ?e = ?e ! 0" by (rule hd_conv_nth[OF ne])
  then have h: "hd ?e = (x1, Y)" using nth_horizontal[where i = 0 and n = 30 and ?x1.0 = x1 and ?x2.0 = x2 and Y = Y and m = "''straight''" and a = a] by simp
  have "last ?e = ?e ! (length ?e - 1)" by (rule last_conv_nth[OF ne])
  then have l: "last ?e = (x2, Y)" using nth_horizontal[where i = 30 and n = 30 and ?x1.0 = x1 and ?x2.0 = x2 and Y = Y and m = "''straight''" and a = a] by simp
  have c: "\<forall>p \<in> set ?e. snd p = Y" by (auto simp: generateHorizontalEdge_def Let_def)
  show ?thesis unfolding horizontalRun_def using ne h l c by blast
qed

lemma vedge_straight_run:
  "verticalRun X y1 y2 (generateVerticalEdge X y1 y2 ''straight'' a 30)"
proof -
  let ?e = "generateVerticalEdge X y1 y2 ''straight'' a 30"
  have ne: "?e \<noteq> []" by (simp add: generateVerticalEdge_def)
  have "hd ?e = ?e ! 0" by (rule hd_conv_nth[OF ne])
  then have h: "hd ?e = (X, y1)" using nth_vertical[where i = 0 and n = 30 and X = X and m = "''straight''" and a = a and ?y1.0 = y1 and ?y2.0 = y2] by simp
  have "last ?e = ?e ! (length ?e - 1)" by (rule last_conv_nth[OF ne])
  then have l: "last ?e = (X, y2)" using nth_vertical[where i = 30 and n = 30 and X = X and m = "''straight''" and a = a and ?y1.0 = y1 and ?y2.0 = y2] by simp
  have c: "\<forall>p \<in> set ?e. fst p = X" by (auto simp: generateVerticalEdge_def Let_def)
  show ?thesis unfolding verticalRun_def using ne h l c by blast
qed

lemma two_point_runs:
  "horizontalRun Y x1 x2 [(x1, Y), (x2, Y)]" "verticalRun X y1 y2 [(X, y1), (X, y2)]"
  by (simp_all add: horizontalRun_def verticalRun_def)

lemma horizontalRun_translate:
  assumes "horizontalRun Y x1 x2 pts"
  shows "horizontalRun (Y - vy) (x1 - vx) (x2 - vx) (map (\<lambda>q. (fst q - vx, snd q - vy)) pts)"
  using assms by (auto simp: horizontalRun_def hd_map last_map)

lemma verticalRun_translate:
  assumes "verticalRun X y1 y2 pts"
  shows "verticalRun (X - vx) (y1 - vy) (y2 - vy) (map (\<lambda>q. (fst q - vx, snd q - vy)) pts)"
  using assms by (auto simp: verticalRun_def hd_map last_map)

lemma runD:
  "horizontalRun Y x1 x2 pts \<Longrightarrow> pts \<noteq> [] \<and> hd pts = (x1, Y) \<and> last pts = (x2, Y)"
  "verticalRun X y1 y2 pts \<Longrightarrow> pts \<noteq> [] \<and> hd pts = (X, y1) \<and> last pts = (X, y2)"
  by (simp_all add: horizontalRun_def verticalRun_def)

lemma straight_outline_sides:
  assumes "splitMode params = ''straight''"
  shows "\<exists>B R T L.
           outlineOf c r params = B @ tl R @ tl T @ butlast (tl L)
         \<and> horizontalRun (yBottom r params) (xLeft c params) (xRight c params) B
         \<and> verticalRun (xRight c params) (yBottom r params) (yTop r params) R
         \<and> horizontalRun (yTop r params) (xRight c params) (xLeft c params) T
         \<and> verticalRun (xLeft c params) (yTop r params) (yBottom r params) L
         \<and> tl L \<noteq> []"
proof -
  define B where "B = (if r = 0 then [(xLeft c params, yBottom r params), (xRight c params, yBottom r params)]
                       else bottomPts c r params)"
  define R where "R = (if c = gridX params - 1
                       then [(xRight c params, yBottom r params), (xRight c params, yTop r params)]
                       else rightPts c r params)"
  define T where "T = (if r = gridY params - 1
                       then [(xRight c params, yTop r params), (xLeft c params, yTop r params)]
                       else topPts c r params)"
  define L where "L = (if c = 0
                       then [(xLeft c params, yTop r params), (xLeft c params, yBottom r params)]
                       else leftPts c r params)"
  have o: "outlineOf c r params = B @ tl R @ tl T @ butlast (tl L)"
    unfolding outlineOf_def B_def R_def T_def L_def slice1_def slice1m1_def
    by (simp add: drop_Suc)
  have b: "horizontalRun (yBottom r params) (xLeft c params) (xRight c params) B"
    unfolding B_def bottomPts_def assms by (simp add: two_point_runs hedge_straight_run)
  have r: "verticalRun (xRight c params) (yBottom r params) (yTop r params) R"
    unfolding R_def rightPts_def assms by (simp add: two_point_runs vedge_straight_run)
  have t: "horizontalRun (yTop r params) (xRight c params) (xLeft c params) T"
    unfolding T_def topPts_def assms by (simp add: two_point_runs hedge_straight_run)
  have l: "verticalRun (xLeft c params) (yTop r params) (yBottom r params) L"
    unfolding L_def leftPts_def assms by (simp add: two_point_runs vedge_straight_run)
  have "length L = 2 \<or> length L = 31" unfolding L_def leftPts_def by simp
  then have n: "tl L \<noteq> []" by (cases L) auto
  show ?thesis using o b r t l n by blast
qed

lemma straight_ring_sums:
  assumes "splitMode params = ''straight''"
    and "pts = map (\<lambda>q. (fst q - vx, snd q - vy)) (outlineOf c r params)"
    and "w = xRight c params - xLeft c params" "h = yTop r params - yBottom r params"
  shows "(\<Sum>e\<leftarrow>ringEdges pts. cross2 (fst e) (snd e)) = 2 * w * h"
    and "(\<Sum>e\<leftarrow>ringEdges pts. (fst (fst e) + fst (snd e)) * cross2 (fst e) (snd e))
          = 3 * w * h * (xLeft c params + xRight c params - 2 * vx)"
    and "(\<Sum>e\<leftarrow>ringEdges pts. (snd (fst e) + snd (snd e)) * cross2 (fst e) (snd e))
          = 3 * w * h * (yBottom r params + yTop r params - 2 * vy)"
proof -
  let ?tr = "\<lambda>q::vec2. (fst q - vx, snd q - vy)"
  obtain B R T L where o: "outlineOf c r params = B @ tl R @ tl T @ butlast (tl L)"
    and b: "horizontalRun (yBottom r params) (xLeft c params) (xRight c params) B"
    and r: "verticalRun (xRight c params) (yBottom r params) (yTop r params) R"
    and t: "horizontalRun (yTop r params) (xRight c params) (xLeft c params) T"
    and l: "verticalRun (xLeft c params) (yTop r params) (yBottom r params) L"
    and n: "tl L \<noteq> []"
    using straight_outline_sides[OF assms(1), of c r] by blast
  have p: "pts = map ?tr B @ tl (map ?tr R) @ tl (map ?tr T) @ butlast (tl (map ?tr L))"
    unfolding assms(2) o by (simp add: map_tl map_butlast)
  note b' = horizontalRun_translate[OF b, of vy vx]
  note r' = verticalRun_translate[OF r, of vx vy]
  note t' = horizontalRun_translate[OF t, of vy vx]
  note l' = verticalRun_translate[OF l, of vx vy]
  have n': "tl (map ?tr L) \<noteq> []" using n by (simp add: map_tl[symmetric])
  have j: "last (map ?tr B) = hd (map ?tr R)" "last (map ?tr R) = hd (map ?tr T)"
    "last (map ?tr T) = hd (map ?tr L)" "last (map ?tr L) = hd (map ?tr B)"
    using runD(1)[OF b'] runD(2)[OF r'] runD(1)[OF t'] runD(2)[OF l'] by simp_all
  have ne: "map ?tr B \<noteq> []" "map ?tr R \<noteq> []" "map ?tr T \<noteq> []"
    using runD(1)[OF b'] runD(2)[OF r'] runD(1)[OF t'] by blast+
  have "(\<Sum>e\<leftarrow>ringEdges pts. cross2 (fst e) (snd e))
      = (yBottom r params - vy) * ((xLeft c params - vx) - (xRight c params - vx))
      + (xRight c params - vx) * ((yTop r params - vy) - (yBottom r params - vy))
      + (yTop r params - vy) * ((xRight c params - vx) - (xLeft c params - vx))
      + (xLeft c params - vx) * ((yBottom r params - vy) - (yTop r params - vy))"
    unfolding p
    using ring_sum_sides[OF ne n' j, where g = cross2]
      horizontalRun_sums(1)[OF b'] verticalRun_sums(1)[OF r']
      horizontalRun_sums(1)[OF t'] verticalRun_sums(1)[OF l']
    by (simp only:)
  then show "(\<Sum>e\<leftarrow>ringEdges pts. cross2 (fst e) (snd e)) = 2 * w * h"
    unfolding assms(3,4) by (simp add: algebra_simps)
  have "(\<Sum>e\<leftarrow>ringEdges pts. (fst (fst e) + fst (snd e)) * cross2 (fst e) (snd e))
      = (yBottom r params - vy) * ((xLeft c params - vx)\<^sup>2 - (xRight c params - vx)\<^sup>2)
      + 2 * (xRight c params - vx)\<^sup>2 * ((yTop r params - vy) - (yBottom r params - vy))
      + (yTop r params - vy) * ((xRight c params - vx)\<^sup>2 - (xLeft c params - vx)\<^sup>2)
      + 2 * (xLeft c params - vx)\<^sup>2 * ((yBottom r params - vy) - (yTop r params - vy))"
    unfolding p
    using ring_sum_sides[OF ne n' j, where g = "\<lambda>p q. (fst p + fst q) * cross2 p q"]
      horizontalRun_sums(2)[OF b'] verticalRun_sums(2)[OF r']
      horizontalRun_sums(2)[OF t'] verticalRun_sums(2)[OF l']
    by (simp only:)
  then show "(\<Sum>e\<leftarrow>ringEdges pts. (fst (fst e) + fst (snd e)) * cross2 (fst e) (snd e))
          = 3 * w * h * (xLeft c params + xRight c params - 2 * vx)"
    unfolding assms(3,4) by (simp add: algebra_simps power2_eq_square)
  have "(\<Sum>e\<leftarrow>ringEdges pts. (snd (fst e) + snd (snd e)) * cross2 (fst e) (snd e))
      = 2 * (yBottom r params - vy)\<^sup>2 * ((xLeft c params - vx) - (xRight c params - vx))
      + (xRight c params - vx) * ((yTop r params - vy)\<^sup>2 - (yBottom r params - vy)\<^sup>2)
      + 2 * (yTop r params - vy)\<^sup>2 * ((xRight c params - vx) - (xLeft c params - vx))
      + (xLeft c params - vx) * ((yBottom r params - vy)\<^sup>2 - (yTop r params - vy)\<^sup>2)"
    unfolding p
    using ring_sum_sides[OF ne n' j, where g = "\<lambda>p q. (snd p + snd q) * cross2 p q"]
      horizontalRun_sums(3)[OF b'] verticalRun_sums(3)[OF r']
      horizontalRun_sums(3)[OF t'] verticalRun_sums(3)[OF l']
    by (simp only:)
  then show "(\<Sum>e\<leftarrow>ringEdges pts. (snd (fst e) + snd (snd e)) * cross2 (fst e) (snd e))
          = 3 * w * h * (yBottom r params + yTop r params - 2 * vy)"
    unfolding assms(3,4) by (simp add: algebra_simps power2_eq_square)
qed

lemma cell_extent:
  "xRight c params - xLeft c params = pieceW params"
  "yTop r params - yBottom r params = pieceH params"
  by (simp_all add: xRight_def yTop_def)

text \<open>
  Claim C8, amended. For every piece and every split mode, the local ring is the global
  outline translated by the recorded \<open>(centerX, centerY)\<close>, and the recorded centre is the
  centre of the piece's grid cell, \<open>((xLeft + xRight) / 2, (yBottom + yTop) / 2)\<close>. For
  \<open>splitMode = 'straight'\<close> the outline encloses the cell itself (area
  \<open>pieceW * pieceH\<close>), so the local ring has its centroid at the origin and, for a cell
  of non-zero area, the recorded centre is the centroid of the outline polygon.
\<close>

theorem piece_shape_centre:
  "shape (createPieceShape c r params)
     = map (\<lambda>q. (fst q - shapeCenterX (createPieceShape c r params),
                  snd q - shapeCenterY (createPieceShape c r params))) (outlineOf c r params)
   \<and> shapeCenterX (createPieceShape c r params) = (xLeft c params + xRight c params) / 2
   \<and> shapeCenterY (createPieceShape c r params) = (yBottom r params + yTop r params) / 2
   \<and> (splitMode params = ''straight'' \<longrightarrow>
         signedArea (shape (createPieceShape c r params)) = pieceW params * pieceH params
       \<and> polygonCentroid (shape (createPieceShape c r params)) = (0, 0)
       \<and> (pieceW params * pieceH params \<noteq> 0 \<longrightarrow>
             polygonCentroid (outlineOf c r params)
               = (shapeCenterX (createPieceShape c r params),
                  shapeCenterY (createPieceShape c r params))))"
proof -
  let ?cx = "(xLeft c params + xRight c params) / 2"
  let ?cy = "(yBottom r params + yTop r params) / 2"
  let ?w = "pieceW params" and ?h = "pieceH params"
  have s: "shape (createPieceShape c r params)
             = map (\<lambda>q. (fst q - ?cx, snd q - ?cy)) (outlineOf c r params)"
    and x: "shapeCenterX (createPieceShape c r params) = ?cx"
    and y: "shapeCenterY (createPieceShape c r params) = ?cy"
    by (simp_all add: createPieceShape_def Let_def pieceCenterX_def pieceCenterY_def)
  have straight: "signedArea (shape (createPieceShape c r params)) = ?w * ?h
       \<and> polygonCentroid (shape (createPieceShape c r params)) = (0, 0)
       \<and> (?w * ?h \<noteq> 0 \<longrightarrow> polygonCentroid (outlineOf c r params) = (?cx, ?cy))"
    if m: "splitMode params = ''straight''"
  proof -
    note loc = straight_ring_sums[OF m s cell_extent(1)[symmetric] cell_extent(2)[symmetric]]
    have g: "outlineOf c r params = map (\<lambda>q. (fst q - 0, snd q - 0)) (outlineOf c r params)"
      by simp
    note glob = straight_ring_sums[OF m g cell_extent(1)[symmetric] cell_extent(2)[symmetric]]
    have a: "signedArea (shape (createPieceShape c r params)) = ?w * ?h"
      unfolding signedArea_def loc(1) by simp
    have ce: "polygonCentroid (shape (createPieceShape c r params)) = (0, 0)"
      unfolding polygonCentroid_def loc(2,3) by simp
    have ga: "signedArea (outlineOf c r params) = ?w * ?h"
      unfolding signedArea_def glob(1) by simp
    have gc: "polygonCentroid (outlineOf c r params) = (?cx, ?cy)" if nz: "?w * ?h \<noteq> 0"
      unfolding polygonCentroid_def glob(2,3) ga using nz by (simp add: field_simps)
    show ?thesis using a ce gc by blast
  qed
  show ?thesis unfolding x y using s straight by blast
qed

lemma initial_cell [simp]:
  "xLeft 0 initialPuzzleParams = -50" "xRight 0 initialPuzzleParams = 0"
  "yBottom 0 initialPuzzleParams = -50" "yTop 0 initialPuzzleParams = 0"
  "pieceW initialPuzzleParams = 50" "pieceH initialPuzzleParams = 50"
  by (simp_all add: xLeft_def xRight_def yBottom_def yTop_def pieceW_def pieceH_def
        initialPuzzleParams_def)

text \<open>
  Piece (0, 0) of the initial grid: a square of area 2500 with centre \<open>(-25, -25)\<close>.
\<close>

theorem piece_shape_centre_witness:
  "splitMode initialPuzzleParams = ''straight''
   \<and> signedArea (shape (createPieceShape 0 0 initialPuzzleParams)) = 2500
   \<and> polygonCentroid (shape (createPieceShape 0 0 initialPuzzleParams)) = (0, 0)
   \<and> polygonCentroid (outlineOf 0 0 initialPuzzleParams) = (-25, -25)"
proof -
  have m: "splitMode initialPuzzleParams = ''straight''"
    by (simp add: initialPuzzleParams_def)
  note t = piece_shape_centre[of 0 0 initialPuzzleParams]
  have x: "shapeCenterX (createPieceShape 0 0 initialPuzzleParams) = -25"
    using t[THEN conjunct2, THEN conjunct1] by simp
  have y: "shapeCenterY (createPieceShape 0 0 initialPuzzleParams) = -25"
    using t[THEN conjunct2, THEN conjunct2, THEN conjunct1] by simp
  note st = t[THEN conjunct2, THEN conjunct2, THEN conjunct2, rule_format, OF m]
  have a: "signedArea (shape (createPieceShape 0 0 initialPuzzleParams)) = 2500"
    using st[THEN conjunct1] by simp
  have c: "polygonCentroid (shape (createPieceShape 0 0 initialPuzzleParams)) = (0, 0)"
    by (rule st[THEN conjunct2, THEN conjunct1])
  have nz: "pieceW initialPuzzleParams * pieceH initialPuzzleParams \<noteq> 0" by simp
  have g: "polygonCentroid (outlineOf 0 0 initialPuzzleParams) = (-25, -25)"
    using st[THEN conjunct2, THEN conjunct2, rule_format, OF nz] x y by simp
  show ?thesis using m a c g by blast
qed

lemma upt31: "[0..<31] = [0,1,2,3,4,5,6,7,8,9,10,11,12,13,14,15,16,17,18,19,20,21,22,23,24,25,26,27,28,29,30]"
  by (simp add: upt_rec)

text \<open>
  Claim C8 as stated fails for a curved cut. With the initial parameters cut in zigzag
  style, the local ring of piece (0, 0) does not have its centroid at the origin: the
  ring is translated by the centre of the grid cell, not by the centroid of the outline.
\<close>

theorem zigzag_centroid_counterexample:
  "polygonCentroid (shape (createPieceShape 0 0 (initialPuzzleParams\<lparr>splitMode := ''zigzag''\<rparr>)))
     = (11933 / 337812, 1517 / 563020)
   \<and> polygonCentroid (shape (createPieceShape 0 0 (initialPuzzleParams\<lparr>splitMode := ''zigzag''\<rparr>)))
     \<noteq> (0, 0)"
proof -
  have "polygonCentroid (shape (createPieceShape 0 0 (initialPuzzleParams\<lparr>splitMode := ''zigzag''\<rparr>)))
     = (11933 / 337812, 1517 / 563020)"
    by (simp add: polygonCentroid_def signedArea_def ringEdges_def cross2_def
      createPieceShape_def outlineOf_def topPts_def rightPts_def
      generateHorizontalEdge_def generateVerticalEdge_def
      upt31 Let_def splitOffset_zigzag js_rem_def xLeft_def xRight_def yBottom_def yTop_def
      pieceW_def pieceH_def amplitudeOf_def pieceCenterX_def pieceCenterY_def slice1_def
      initialPuzzleParams_def)
  then show ?thesis by simp
qed

section \<open>The snap engine on poses that carry an index\<close>

lemma sentinel_cases:
  assumes "j = (if P then a else (-1::int))" "j \<noteq> -1"
  shows "P \<and> j = a"
  using assms by (cases P) simp_all

lemma neighbor_in_range:
  assumes "1 \<le> gridX params" "1 \<le> gridY params"
    and "0 \<le> i" "i < gridX params * gridY params"
    and "j = leftN (neighbors (pieceAt (i mod gridX params) (i div gridX params) i params))
       \<or> j = rightN (neighbors (pieceAt (i mod gridX params) (i div gridX params) i params))
       \<or> j = bottomN (neighbors (pieceAt (i mod gridX params) (i div gridX params) i params))
       \<or> j = topN (neighbors (pieceAt (i mod gridX params) (i div gridX params) i params))"
    and "j \<noteq> -1"
  shows "0 \<le> j \<and> j < gridX params * gridY params"
proof -
  let ?gx = "gridX params" and ?gy = "gridY params"
  have m: "0 \<le> i mod ?gx" "i mod ?gx < ?gx" using assms(1) by simp_all
  have d2: "i div ?gx < ?gy" using assms(4) by (simp only: div_row_bound[OF assms(1,3)])
  have e: "?gx * (i div ?gx) + i mod ?gx = i" by simp
  have up: "?gx * (i div ?gx + 1) \<le> ?gx * ?gy"
    using d2 assms(1) by (intro mult_left_mono) simp_all
  have up': "?gx * (i div ?gx + 1) = ?gx * (i div ?gx) + ?gx" by (simp add: algebra_simps)
  have dj: "j = (if 0 < i mod ?gx then i - 1 else -1)
          \<or> j = (if i mod ?gx < ?gx - 1 then i + 1 else -1)
          \<or> j = (if 0 < i div ?gx then i - ?gx else -1)
          \<or> j = (if i div ?gx < ?gy - 1 then i + ?gx else -1)"
    using assms(5)
    unfolding pieceAt_simps grid_left[OF assms(1,3)] grid_right grid_bottom grid_top .
  consider (l) "0 < i mod ?gx" "j = i - 1" | (r) "i mod ?gx < ?gx - 1" "j = i + 1"
    | (b) "0 < i div ?gx" "j = i - ?gx" | (t) "i div ?gx < ?gy - 1" "j = i + ?gx"
    using dj sentinel_cases[OF _ assms(6), of "0 < i mod ?gx" "i - 1"]
      sentinel_cases[OF _ assms(6), of "i mod ?gx < ?gx - 1" "i + 1"]
      sentinel_cases[OF _ assms(6), of "0 < i div ?gx" "i - ?gx"]
      sentinel_cases[OF _ assms(6), of "i div ?gx < ?gy - 1" "i + ?gx"]
    by blast
  then show ?thesis
  proof cases
    case l
    have "i mod ?gx \<le> i" using assms(3) by (rule zmod_le_nonneg_dividend)
    then have "1 \<le> i" using l(1) by linarith
    then show ?thesis using l(2) assms(4) by linarith
  next
    case r
    have "i + 1 < ?gx * (i div ?gx) + ?gx" using r(1) e by linarith
    then show ?thesis using r(2) assms(3) up up' by linarith
  next
    case b
    have "1 \<le> i div ?gx" using b(1) by linarith
    then have "?gx * 1 \<le> ?gx * (i div ?gx)" using assms(1) by (intro mult_left_mono) simp_all
    then have "?gx \<le> i" using e m(1) by linarith
    then show ?thesis using b(2) assms(1,4) by linarith
  next
    case t
    have "i div ?gx + 2 \<le> ?gy" using t(1) by linarith
    then have a: "?gx * (i div ?gx + 2) \<le> ?gx * ?gy"
      using assms(1) by (intro mult_left_mono) simp_all
    have b: "?gx * (i div ?gx + 2) = ?gx * (i div ?gx) + ?gx + ?gx" by (simp add: algebra_simps)
    have "i + ?gx < ?gx * ?gy" using a b e m(2) by linarith
    then show ?thesis using t(2) assms(1,3) by linarith
  qed
qed

lemma map_filter_member:
  assumes "x \<in> set xs" "f x = Some y"
  shows "y \<in> set (List.map_filter f xs)"
proof -
  have "x \<in> set (filter (\<lambda>v. f v \<noteq> None) xs)" using assms by simp
  then have "(the \<circ> f) x \<in> (the \<circ> f) ` set (filter (\<lambda>v. f v \<noteq> None) xs)"
    by (rule imageI)
  moreover have "(the \<circ> f) x = y" using assms(2) by simp
  ultimately have "y \<in> (the \<circ> f) ` set (filter (\<lambda>v. f v \<noteq> None) xs)" by (simp only:)
  then show ?thesis unfolding List.map_filter_def set_map .
qed

lemma entries_member:
  assumes "j = leftN nb \<or> j = rightN nb \<or> j = bottomN nb \<or> j = topN nb"
  shows "\<exists>e. (e, j) \<in> set (neighborEntries nb)"
proof -
  have "(''left'', leftN nb) \<in> set (neighborEntries nb)"
    "(''right'', rightN nb) \<in> set (neighborEntries nb)"
    "(''bottom'', bottomN nb) \<in> set (neighborEntries nb)"
    "(''top'', topN nb) \<in> set (neighborEntries nb)"
    unfolding neighborEntries_def by (simp_all only: list.set insertI1 insertI2)
  then show ?thesis using assms by blast
qed

text \<open>
  What \<open>findSnapTargets\<close> does when every pose object carries the index of its piece, as
  the parameters of \<open>checkSnapPossibility\<close> are documented (\<open>{x, y, rotation, index}\<close>):
  in the assembled state, every interior adjacency of a piece yields a candidate with
  \<open>canSnap = true\<close> and distance \<open>0\<close>, for every threshold \<open>\<ge> 0\<close>.
\<close>

lemma assembled_with_index_snaps:
  assumes "1 \<le> gridX params" "1 \<le> gridY params"
    and "0 \<le> i" "i < gridX params * gridY params" "0 \<le> threshold"
    and "pieces = generateAllPieces params"
    and "T = map (\<lambda>piece. (assembledTransform params piece)\<lparr>tindex := Some (index piece)\<rparr>) pieces"
    and "j = leftN (neighbors (pieces ! nat i)) \<or> j = rightN (neighbors (pieces ! nat i))
       \<or> j = bottomN (neighbors (pieces ! nat i)) \<or> j = topN (neighbors (pieces ! nat i))"
    and "j \<noteq> -1"
  shows "\<exists>t \<in> set (findSnapTargets i T pieces threshold).
           neighborIndex t = j \<and> tCanSnap t \<and> tDistance t = Finite 0"
proof -
  let ?gx = "gridX params" and ?gy = "gridY params"
  let ?pa = "\<lambda>k. pieceAt (k mod ?gx) (k div ?gx) k params"
  let ?tr = "\<lambda>k. (assembledTransform params (?pa k))\<lparr>tindex := Some k\<rparr>"
  have gy0: "0 \<le> ?gy" using assms(2) by simp
  have pi: "pieces ! nat i = ?pa i"
    unfolding assms(6) by (rule nth_generateAllPieces[OF assms(1) gy0 assms(3,4)])
  have adj: "j = leftN (neighbors (?pa i)) \<or> j = rightN (neighbors (?pa i))
       \<or> j = bottomN (neighbors (?pa i)) \<or> j = topN (neighbors (?pa i))"
    using assms(8) unfolding pi .
  have jr: "0 \<le> j \<and> j < ?gx * ?gy"
    by (rule neighbor_in_range[OF assms(1,2,3,4) adj assms(9)])
  have j0: "0 \<le> j" and j1: "j < ?gx * ?gy" using jr by blast+
  have len: "length pieces = nat (?gx * ?gy)"
    unfolding assms(6) by (rule length_generateAllPieces[OF assms(1) gy0])
  have info: "js_at pieces k = Some (?pa k)" if "0 \<le> k" "k < ?gx * ?gy" for k
    unfolding assms(6) by (rule js_at_generateAllPieces[OF assms(1) gy0 that])
  have tr: "js_at T k = Some (?tr k)" if "0 \<le> k" "k < ?gx * ?gy" for k
  proof -
    have a: "nat k < length pieces" using that len by simp
    have b: "pieces ! nat k = ?pa k"
      unfolding assms(6) by (rule nth_generateAllPieces[OF assms(1) gy0 that])
    have "T ! nat k = ?tr k" unfolding assms(7) using a b by simp
    moreover have "nat k < length T" unfolding assms(7) using a by simp
    ultimately show ?thesis using that(1) by (simp add: js_at_def)
  qed
  have ti: "tindex (?tr i) = Some i" and tj: "tindex (?tr j) = Some j" by simp_all
  have i1: "infoOf pieces (tindex (?tr i)) = Some (?pa i)"
    unfolding ti infoOf_def using info[OF assms(3,4)] by simp
  have i2: "infoOf pieces (tindex (?tr j)) = Some (?pa j)"
    unfolding tj infoOf_def using info[OF j0 j1] by simp
  obtain e where e: "edgeTowards (neighbors (?pa i)) (tindex (?tr j)) = Some e"
    unfolding tj using edgeTowards_Some[OF adj] by blast
  have poses: "tx (?tr i) = centerX (?pa i)" "ty (?tr i) = centerY (?pa i)"
    "tx (?tr j) = centerX (?pa j)" "ty (?tr j) = centerY (?pa j)"
    "trotation (?tr i) = 0" "trotation (?tr j) = 0"
    by (simp_all add: assembledTransform_def)
  have rot: "js_rem (abs (trotation (?tr i) - trotation (?tr j))) (2 * pi) < 0.1
         \<or> abs (js_rem (abs (trotation (?tr i) - trotation (?tr j))) (2 * pi) - 2 * pi) < 0.1"
    unfolding poses by simp
  have dx: "centerX (?pa i) - centerX (?pa j)
              = (centerX (?pa i) - centerX (?pa j)) * cos (trotation (?tr j))
                - (centerY (?pa i) - centerY (?pa j)) * sin (trotation (?tr j))"
    unfolding poses by simp
  have dy: "centerY (?pa i) - centerY (?pa j)
              = (centerX (?pa i) - centerX (?pa j)) * sin (trotation (?tr j))
                + (centerY (?pa i) - centerY (?pa j)) * cos (trotation (?tr j))"
    unfolding poses by simp
  have d: "(0::real) = sqrt ((tx (?tr i) - tx (?tr j) - (centerX (?pa i) - centerX (?pa j)))\<^sup>2
                   + (ty (?tr i) - ty (?tr j) - (centerY (?pa i) - centerY (?pa j)))\<^sup>2)"
    unfolding poses by simp
  have "checkSnapPossibility (?tr i) (?tr j) pieces threshold
       = (if 0 \<le> threshold
          then Some \<lparr>canSnap = True, distance = Finite 0, edge = e,
                     targetX = Some (tx (?tr j) + (centerX (?pa i) - centerX (?pa j))),
                     targetY = Some (ty (?tr j) + (centerY (?pa i) - centerY (?pa j))),
                     targetRotation = Some (trotation (?tr j))\<rparr>
          else Some \<lparr>canSnap = False, distance = Finite 0, edge = e,
                     targetX = None, targetY = None, targetRotation = None\<rparr>)"
    by (rule check_match[OF i1 i2 e rot dx dy d])
  then have chk: "checkSnapPossibility (?tr i) (?tr j) pieces threshold
       = Some \<lparr>canSnap = True, distance = Finite 0, edge = e,
                     targetX = Some (tx (?tr j) + (centerX (?pa i) - centerX (?pa j))),
                     targetY = Some (ty (?tr j) + (centerY (?pa i) - centerY (?pa j))),
                     targetRotation = Some (trotation (?tr j))\<rparr>"
    using assms(5) by (simp only: if_True)
  obtain e' where e': "(e', j) \<in> set (neighborEntries (neighbors (?pa i)))"
    using entries_member[OF adj] by blast
  let ?t = "\<lparr>neighborIndex = j, tCanSnap = True, tDistance = Finite 0, tEdge = e,
             tTargetX = Some (tx (?tr j) + (centerX (?pa i) - centerX (?pa j))),
             tTargetY = Some (ty (?tr j) + (centerY (?pa i) - centerY (?pa j))),
             tTargetRotation = Some (trotation (?tr j))\<rparr>"
  have st: "snapTargetFor (?tr i) T pieces threshold (e', j) = Some ?t"
    unfolding snapTargetFor_def Let_def snd_conv tr[OF j0 j1] option.case chk
    using assms(9) by (simp add: finiteDistance_def)
  have mem: "?t \<in> set (List.map_filter (snapTargetFor (?tr i) T pieces threshold)
                          (neighborEntries (neighbors (?pa i))))"
    by (rule map_filter_member[where f = "snapTargetFor (?tr i) T pieces threshold", OF e' st])
  have "findSnapTargets i T pieces threshold
      = sort_key (\<lambda>t. distanceValue (tDistance t))
          (List.map_filter (snapTargetFor (?tr i) T pieces threshold)
             (neighborEntries (neighbors (?pa i))))"
    unfolding findSnapTargets_def tr[OF assms(3,4)] info[OF assms(3,4)]
    by (simp only: prod.case option.case)
  then have "set (findSnapTargets i T pieces threshold)
      = set (List.map_filter (snapTargetFor (?tr i) T pieces threshold)
             (neighborEntries (neighbors (?pa i))))"
    by (simp only: set_sort)
  then have "?t \<in> set (findSnapTargets i T pieces threshold)" using mem by (simp only:)
  moreover have "neighborIndex ?t = j \<and> tCanSnap ?t \<and> tDistance ?t = Finite 0" by simp
  ultimately show ?thesis by (rule bexI[rotated])
qed

end
